theory Spec2Isabelle
  imports Complex_Main
begin

section \<open>Symbolic expressions\<close>

text \<open>
  The script \<^verbatim>\<open>ellipsoid_no_slip_steady.py\<close> computes with symbolic expressions.
  A symbol is either a plain symbol (\<^verbatim>\<open>symbols('g')\<close>) or a function of time made by
  \<^verbatim>\<open>dynamicsymbols\<close> together with the order of its time derivative:
  \<open>Dyn ''q0'' 0\<close> is \<^verbatim>\<open>q0(t)\<close> and \<open>Dyn ''q0'' 1\<close> is \<^verbatim>\<open>Derivative(q0(t), t)\<close>.
\<close>

datatype sym = Symbol string | Dyn string nat

datatype expr =
    Num int
  | Var sym
  | Add expr expr
  | Mul expr expr
  | Pow expr nat
  | Inv expr
  | Sqrt expr
  | Sin expr
  | Cos expr

text \<open>The value of an expression once every symbol has a real value.\<close>

fun eval :: "(sym \<Rightarrow> real) \<Rightarrow> expr \<Rightarrow> real" where
  "eval env (Num k) = of_int k"
| "eval env (Var x) = env x"
| "eval env (Add u v) = eval env u + eval env v"
| "eval env (Mul u v) = eval env u * eval env v"
| "eval env (Pow u n) = eval env u ^ n"
| "eval env (Inv u) = inverse (eval env u)"
| "eval env (Sqrt u) = sqrt (eval env u)"
| "eval env (Sin u) = sin (eval env u)"
| "eval env (Cos u) = cos (eval env u)"

text \<open>The symbols that occur in an expression (\<^verbatim>\<open>free_symbols\<close> and the applied functions).\<close>

fun vars :: "expr \<Rightarrow> sym set" where
  "vars (Num k) = {}"
| "vars (Var x) = {x}"
| "vars (Add u v) = vars u \<union> vars v"
| "vars (Mul u v) = vars u \<union> vars v"
| "vars (Pow u n) = vars u"
| "vars (Inv u) = vars u"
| "vars (Sqrt u) = vars u"
| "vars (Sin u) = vars u"
| "vars (Cos u) = vars u"

text \<open>
  The arithmetic operators of the library evaluate as they build: a zero summand and a unit
  factor disappear, and a zero factor makes the product zero.
\<close>

definition add_e :: "expr \<Rightarrow> expr \<Rightarrow> expr" where
  "add_e u v = (if u = Num 0 then v else if v = Num 0 then u else Add u v)"

definition mul_e :: "expr \<Rightarrow> expr \<Rightarrow> expr" where
  "mul_e u v =
     (if u = Num 0 \<or> v = Num 0 then Num 0
      else if u = Num 1 then v else if v = Num 1 then u else Mul u v)"

definition neg_e :: "expr \<Rightarrow> expr" where
  "neg_e u = mul_e (Num (- 1)) u"

definition sub_e :: "expr \<Rightarrow> expr \<Rightarrow> expr" where
  "sub_e u v = add_e u (neg_e v)"

definition pow_e :: "expr \<Rightarrow> nat \<Rightarrow> expr" where
  "pow_e u n = (if n = 0 then Num 1 else if n = 1 then u else if u = Num 0 then Num 0 else Pow u n)"

definition div_e :: "expr \<Rightarrow> expr \<Rightarrow> expr" where
  "div_e u v = mul_e u (Inv v)"

definition sqrt_e :: "expr \<Rightarrow> expr" where
  "sqrt_e u = Sqrt u"

definition sin_e :: "expr \<Rightarrow> expr" where
  "sin_e u = (if u = Num 0 then Num 0 else Sin u)"

definition cos_e :: "expr \<Rightarrow> expr" where
  "cos_e u = (if u = Num 0 then Num 1 else Cos u)"

text \<open>
  \<^verbatim>\<open>expr.subs(dict)\<close>: every symbol that is a key of the dictionary is replaced, and the
  expression is rebuilt with the evaluating operators.
\<close>

fun subs :: "(sym \<rightharpoonup> expr) \<Rightarrow> expr \<Rightarrow> expr" where
  "subs \<sigma> (Num k) = Num k"
| "subs \<sigma> (Var x) = (case \<sigma> x of None \<Rightarrow> Var x | Some u \<Rightarrow> u)"
| "subs \<sigma> (Add u v) = add_e (subs \<sigma> u) (subs \<sigma> v)"
| "subs \<sigma> (Mul u v) = mul_e (subs \<sigma> u) (subs \<sigma> v)"
| "subs \<sigma> (Pow u n) = pow_e (subs \<sigma> u) n"
| "subs \<sigma> (Inv u) = Inv (subs \<sigma> u)"
| "subs \<sigma> (Sqrt u) = sqrt_e (subs \<sigma> u)"
| "subs \<sigma> (Sin u) = sin_e (subs \<sigma> u)"
| "subs \<sigma> (Cos u) = cos_e (subs \<sigma> u)"

text \<open>
  \<^verbatim>\<open>expr.diff(x)\<close>. The time \<^verbatim>\<open>t\<close> is the one symbol the functions of time depend
  on: the derivative of \<open>Dyn n k\<close> with respect to it is \<open>Dyn n (k + 1)\<close>. With respect to
  any other symbol the functions of time and their derivatives are independent atoms.
\<close>

definition t :: sym where
  "t = Symbol ''t''"

fun diff_atom :: "sym \<Rightarrow> sym \<Rightarrow> expr" where
  "diff_atom x (Symbol n) = (if x = Symbol n then Num 1 else Num 0)"
| "diff_atom x (Dyn n k) =
     (if x = Dyn n k then Num 1 else if x = t then Var (Dyn n (Suc k)) else Num 0)"

fun diff :: "sym \<Rightarrow> expr \<Rightarrow> expr" where
  "diff x (Num k) = Num 0"
| "diff x (Var y) = diff_atom x y"
| "diff x (Add u v) = add_e (diff x u) (diff x v)"
| "diff x (Mul u v) = add_e (mul_e (diff x u) v) (mul_e u (diff x v))"
| "diff x (Pow u n) = mul_e (mul_e (Num (int n)) (pow_e u (n - 1))) (diff x u)"
| "diff x (Inv u) = mul_e (neg_e (Inv (Pow u 2))) (diff x u)"
| "diff x (Sqrt u) = mul_e (Inv (Mul (Num 2) (Sqrt u))) (diff x u)"
| "diff x (Sin u) = mul_e (Cos u) (diff x u)"
| "diff x (Cos u) = mul_e (neg_e (Sin u)) (diff x u)"

text \<open>
  \<^verbatim>\<open>expr.coeff(x**n)\<close>: the expression is read as a polynomial in \<open>x\<close>, the list of its
  coefficients by increasing degree is computed, and the entry of degree \<open>n\<close> is returned.
  Inverses, roots and trigonometric functions are atoms of the polynomial.
\<close>

fun padd :: "expr list \<Rightarrow> expr list \<Rightarrow> expr list" where
  "padd [] ys = ys"
| "padd xs [] = xs"
| "padd (x # xs) (y # ys) = add_e x y # padd xs ys"

fun pmul :: "expr list \<Rightarrow> expr list \<Rightarrow> expr list" where
  "pmul [] ys = []"
| "pmul (x # xs) ys = padd (map (mul_e x) ys) (Num 0 # pmul xs ys)"

fun ppow :: "expr list \<Rightarrow> nat \<Rightarrow> expr list" where
  "ppow xs 0 = [Num 1]"
| "ppow xs (Suc n) = pmul xs (ppow xs n)"

fun coeffs :: "sym \<Rightarrow> expr \<Rightarrow> expr list" where
  "coeffs x (Num k) = [Num k]"
| "coeffs x (Var y) = (if x = y then [Num 0, Num 1] else [Var y])"
| "coeffs x (Add u v) = padd (coeffs x u) (coeffs x v)"
| "coeffs x (Mul u v) = pmul (coeffs x u) (coeffs x v)"
| "coeffs x (Pow u n) = ppow (coeffs x u) n"
| "coeffs x (Inv u) = [Inv u]"
| "coeffs x (Sqrt u) = [Sqrt u]"
| "coeffs x (Sin u) = [Sin u]"
| "coeffs x (Cos u) = [Cos u]"

definition coeff :: "expr \<Rightarrow> sym \<Rightarrow> nat \<Rightarrow> expr" where
  "coeff u x n = (let cs = coeffs x u in if n < length cs then cs ! n else Num 0)"

text \<open>
  \<^verbatim>\<open>expand\<close> and \<^verbatim>\<open>collect\<close> rewrite an expression into another expression of the same
  value; the model keeps the expression as it is.
\<close>

definition expand :: "expr \<Rightarrow> expr" where
  "expand u = u"

definition collect :: "expr \<Rightarrow> expr \<Rightarrow> expr" where
  "collect u x = u"

section \<open>Reference frames and vectors\<close>

datatype frame = N | Y | L | R

datatype axis = X_axis | Y_axis | Z_axis

type_synonym vec3 = "expr \<times> expr \<times> expr"
type_synonym mat3 = "vec3 \<times> vec3 \<times> vec3"

text \<open>A vector is a list of component triples, one per frame whose basis it uses.\<close>

type_synonym vector = "(frame \<times> vec3) list"

definition zero3 :: vec3 where
  "zero3 = (Num 0, Num 0, Num 0)"

fun add3 :: "vec3 \<Rightarrow> vec3 \<Rightarrow> vec3" where
  "add3 (u1, u2, u3) (v1, v2, v3) = (add_e u1 v1, add_e u2 v2, add_e u3 v3)"

fun scale3 :: "expr \<Rightarrow> vec3 \<Rightarrow> vec3" where
  "scale3 k (v1, v2, v3) = (mul_e k v1, mul_e k v2, mul_e k v3)"

fun map3 :: "(expr \<Rightarrow> expr) \<Rightarrow> vec3 \<Rightarrow> vec3" where
  "map3 h (v1, v2, v3) = (h v1, h v2, h v3)"

fun dot3 :: "vec3 \<Rightarrow> vec3 \<Rightarrow> expr" where
  "dot3 (u1, u2, u3) (v1, v2, v3) = add_e (add_e (mul_e u1 v1) (mul_e u2 v2)) (mul_e u3 v3)"

fun mat_vec :: "mat3 \<Rightarrow> vec3 \<Rightarrow> vec3" where
  "mat_vec (r1, r2, r3) v = (dot3 r1 v, dot3 r2 v, dot3 r3 v)"

fun transpose3 :: "mat3 \<Rightarrow> mat3" where
  "transpose3 ((a11, a12, a13), (a21, a22, a23), (a31, a32, a33)) =
     ((a11, a21, a31), (a12, a22, a32), (a13, a23, a33))"

definition mat_mul :: "mat3 \<Rightarrow> mat3 \<Rightarrow> mat3" where
  "mat_mul A B =
     (case transpose3 B of (c1, c2, c3) \<Rightarrow> transpose3 (mat_vec A c1, mat_vec A c2, mat_vec A c3))"

definition eye3 :: mat3 where
  "eye3 = ((Num 1, Num 0, Num 0), (Num 0, Num 1, Num 0), (Num 0, Num 0, Num 1))"

definition map_mat :: "(expr \<Rightarrow> expr) \<Rightarrow> mat3 \<Rightarrow> mat3" where
  "map_mat h A = (case A of (r1, r2, r3) \<Rightarrow> (map3 h r1, map3 h r2, map3 h r3))"

text \<open>
  \<^verbatim>\<open>Vector(inlist)\<close>: parts of the same frame are added up, in the order of their first
  occurrence, and a part whose three components are zero is dropped.
\<close>

fun insert_part :: "frame \<times> vec3 \<Rightarrow> vector \<Rightarrow> vector" where
  "insert_part p [] = [p]"
| "insert_part p (p' # ps) =
     (if fst p = fst p' then (fst p', add3 (snd p') (snd p)) # ps else p' # insert_part p ps)"

definition Vector :: "(frame \<times> vec3) list \<Rightarrow> vector" where
  "Vector inlist = filter (\<lambda>p. snd p \<noteq> zero3) (foldl (\<lambda>args p. insert_part p args) [] inlist)"

definition vadd :: "vector \<Rightarrow> vector \<Rightarrow> vector" where
  "vadd u v = Vector (u @ v)"

definition smul :: "expr \<Rightarrow> vector \<Rightarrow> vector" where
  "smul k v = Vector (map (\<lambda>p. (fst p, scale3 k (snd p))) v)"

definition vneg :: "vector \<Rightarrow> vector" where
  "vneg v = smul (Num (- 1)) v"

definition vsub :: "vector \<Rightarrow> vector \<Rightarrow> vector" where
  "vsub u v = vadd u (vneg v)"

definition frame_x :: "frame \<Rightarrow> vector" where
  "frame_x F = Vector [(F, (Num 1, Num 0, Num 0))]"

definition frame_y :: "frame \<Rightarrow> vector" where
  "frame_y F = Vector [(F, (Num 0, Num 1, Num 0))]"

definition frame_z :: "frame \<Rightarrow> vector" where
  "frame_z F = Vector [(F, (Num 0, Num 0, Num 1))]"

definition basis :: "frame \<Rightarrow> vector list" where
  "basis F = [frame_x F, frame_y F, frame_z F]"

text \<open>
  \<^verbatim>\<open>parent.orientnew(name, 'Axis', [angle, axis])\<close>: the matrix that takes components in the
  new frame to components in its parent.
\<close>

fun parent_orient :: "axis \<Rightarrow> expr \<Rightarrow> mat3" where
  "parent_orient X_axis \<theta> =
     ((Num 1, Num 0, Num 0),
      (Num 0, cos_e \<theta>, neg_e (sin_e \<theta>)),
      (Num 0, sin_e \<theta>, cos_e \<theta>))"
| "parent_orient Y_axis \<theta> =
     ((cos_e \<theta>, Num 0, sin_e \<theta>),
      (Num 0, Num 1, Num 0),
      (neg_e (sin_e \<theta>), Num 0, cos_e \<theta>))"
| "parent_orient Z_axis \<theta> =
     ((cos_e \<theta>, neg_e (sin_e \<theta>), Num 0),
      (sin_e \<theta>, cos_e \<theta>, Num 0),
      (Num 0, Num 0, Num 1))"


text \<open>
  The frames of the script, each with its parent, the axis of the rotation and the angle:
  \<^verbatim>\<open>Y = N.orientnew('Y', 'Axis', [q[0], N.z])\<close>, \<^verbatim>\<open>L = Y.orientnew('L', 'Axis', [q[1], Y.x])\<close>,
  \<^verbatim>\<open>R = L.orientnew('R', 'Axis', [q[2], L.y])\<close>.
\<close>

definition q :: "nat \<Rightarrow> sym" where
  "q i = Dyn (''q'' @ [char_of (48 + i)]) 0"

definition qd :: "nat \<Rightarrow> sym" where
  "qd i = Dyn (''q'' @ [char_of (48 + i)]) 1"

definition qdd :: "nat \<Rightarrow> sym" where
  "qdd i = Dyn (''q'' @ [char_of (48 + i)]) 2"

definition r :: "nat \<Rightarrow> sym" where
  "r i = Dyn (''r'' @ [char_of (48 + i)]) 0"

definition rd :: "nat \<Rightarrow> sym" where
  "rd i = Dyn (''r'' @ [char_of (48 + i)]) 1"

fun orient :: "frame \<Rightarrow> mat3" where
  "orient N = eye3"
| "orient Y = parent_orient Z_axis (Var (q 0))"
| "orient L = parent_orient X_axis (Var (q 1))"
| "orient R = parent_orient Y_axis (Var (q 2))"

fun depth :: "frame \<Rightarrow> nat" where
  "depth N = 0"
| "depth Y = 1"
| "depth L = 2"
| "depth R = 3"

text \<open>
  \<open>chain F G\<close> takes components in \<open>G\<close> to components in its ancestor \<open>F\<close>: the product of
  the orientation matrices along the path between the two frames, which never leaves it.
\<close>

fun chain :: "frame \<Rightarrow> frame \<Rightarrow> mat3" where
  "chain N Y = orient Y"
| "chain Y L = orient L"
| "chain L R = orient R"
| "chain N L = mat_mul (orient Y) (orient L)"
| "chain Y R = mat_mul (orient L) (orient R)"
| "chain N R = mat_mul (orient Y) (mat_mul (orient L) (orient R))"
| "chain F G = eye3"

text \<open>\<^verbatim>\<open>F.dcm(G)\<close>: the matrix that takes components in \<open>G\<close> to components in \<open>F\<close>.\<close>

definition dcm :: "frame \<Rightarrow> frame \<Rightarrow> mat3" where
  "dcm F G = (if depth F \<le> depth G then chain F G else transpose3 (chain G F))"

text \<open>\<^verbatim>\<open>dot(u, v)\<close> for two vectors, with \<^verbatim>\<open>Vector.simp = False\<close>: no simplification.\<close>

definition dot :: "vector \<Rightarrow> vector \<Rightarrow> expr" where
  "dot u v =
     foldl (\<lambda>out p1.
       foldl (\<lambda>out p2. add_e out (dot3 (snd p2) (mat_vec (dcm (fst p2) (fst p1)) (snd p1)))) out v)
       (Num 0) u"

text \<open>
  \<^verbatim>\<open>cross(u, v)\<close>: for every part of \<open>v\<close>, the determinant with the basis of the part's frame,
  the measure numbers of \<open>u\<close> in that frame and the components of the part.
\<close>

definition cross_part :: "vector \<Rightarrow> frame \<times> vec3 \<Rightarrow> frame \<times> vec3" where
  "cross_part u p =
     (case p of (F, (c1, c2, c3)) \<Rightarrow>
        let m1 = dot u (frame_x F); m2 = dot u (frame_y F); m3 = dot u (frame_z F)
        in (F, (sub_e (mul_e m2 c3) (mul_e m3 c2),
                sub_e (mul_e m3 c1) (mul_e m1 c3),
                sub_e (mul_e m1 c2) (mul_e m2 c1))))"

definition cross :: "vector \<Rightarrow> vector \<Rightarrow> vector" where
  "cross u v = foldl (\<lambda>out p. vadd out [cross_part u p]) [] v"

text \<open>
  \<^verbatim>\<open>v.diff(x, F)\<close>: a part in the frame \<open>F\<close>, or in a frame whose orientation relative to
  \<open>F\<close> does not depend on \<open>x\<close>, is differentiated component by component; any other part is
  expressed in \<open>F\<close>, differentiated there and expressed back.
\<close>

definition vdiff_part :: "sym \<Rightarrow> frame \<Rightarrow> frame \<times> vec3 \<Rightarrow> frame \<times> vec3" where
  "vdiff_part x F p =
     (if fst p = F then (F, map3 (diff x) (snd p))
      else if map_mat (diff x) (dcm F (fst p)) = (zero3, zero3, zero3)
        then (fst p, map3 (diff x) (snd p))
      else (fst p, mat_vec (dcm (fst p) F) (map3 (diff x) (mat_vec (dcm F (fst p)) (snd p)))))"

definition vdiff :: "sym \<Rightarrow> frame \<Rightarrow> vector \<Rightarrow> vector" where
  "vdiff x F v = foldl (\<lambda>out p. vadd out [vdiff_part x F p]) [] v"

text \<open>\<^verbatim>\<open>v.subs(dict)\<close>: substitution in every component.\<close>

definition vsubs :: "(sym \<rightharpoonup> expr) \<Rightarrow> vector \<Rightarrow> vector" where
  "vsubs \<sigma> v = foldl (\<lambda>out p. vadd out [(fst p, map3 (subs \<sigma>) (snd p))]) [] v"

text \<open>
  A dyadic is a list of terms \<open>k * (a | b)\<close>; \<^verbatim>\<open>inertia(F, ixx, iyy, izz, ixy, iyz, izx)\<close>
  builds the inertia dyadic and \<^verbatim>\<open>dot(I, v)\<close> is \<open>\<Sum> k * a * (b \<cdot> v)\<close>.
\<close>

type_synonym dyadic = "(expr \<times> vector \<times> vector) list"

definition inertia :: "frame \<Rightarrow> expr \<Rightarrow> expr \<Rightarrow> expr \<Rightarrow> expr \<Rightarrow> expr \<Rightarrow> expr \<Rightarrow> dyadic" where
  "inertia F ixx iyy izz ixy iyz izx =
     [(ixx, frame_x F, frame_x F), (ixy, frame_x F, frame_y F), (izx, frame_x F, frame_z F),
      (ixy, frame_y F, frame_x F), (iyy, frame_y F, frame_y F), (iyz, frame_y F, frame_z F),
      (izx, frame_z F, frame_x F), (iyz, frame_z F, frame_y F), (izz, frame_z F, frame_z F)]"

definition dyadic_dot :: "dyadic \<Rightarrow> vector \<Rightarrow> vector" where
  "dyadic_dot D v =
     foldl (\<lambda>ol d. case d of (k, u, w) \<Rightarrow> vadd ol (smul (mul_e k (dot w v)) u)) [] D"

section \<open>The derivation\<close>

text \<open>The constants of the problem (lines 6 to 12 of the script).\<close>

definition sym_g :: expr where "sym_g = Var (Symbol ''g'')"
definition sym_a :: expr where "sym_a = Var (Symbol ''a'')"
definition sym_b :: expr where "sym_b = Var (Symbol ''b'')"
definition sym_c :: expr where "sym_c = Var (Symbol ''c'')"
definition sym_d :: expr where "sym_d = Var (Symbol ''d'')"
definition sym_e :: expr where "sym_e = Var (Symbol ''e'')"
definition sym_f :: expr where "sym_f = Var (Symbol ''f'')"
definition sym_s :: expr where "sym_s = Var (Symbol ''s'')"
definition sym_m :: expr where "sym_m = Var (Symbol ''m'')"
definition Ixx :: expr where "Ixx = Var (Symbol ''Ixx'')"
definition Iyy :: expr where "Iyy = Var (Symbol ''Iyy'')"
definition Izz :: expr where "Izz = Var (Symbol ''Izz'')"
definition Ixy :: expr where "Ixy = Var (Symbol ''Ixy'')"
definition Iyz :: expr where "Iyz = Var (Symbol ''Iyz'')"
definition Ixz :: expr where "Ixz = Var (Symbol ''Ixz'')"

definition I_dyadic :: dyadic where
  "I_dyadic = inertia R Ixx Iyy Izz Ixy Iyz Ixz"

text \<open>Line 27: the angular velocity of the body before the conditions of steady motion.\<close>

definition R_ang_vel0 :: vector where
  "R_ang_vel0 =
     vadd (vadd (smul (Var (qd 0)) (frame_z Y)) (smul (Var (qd 1)) (frame_x Y)))
          (smul (Var (qd 2)) (frame_y L))"

text \<open>Lines 35 to 40: the centre \<open>O\<close> of the ellipsoid relative to the contact point \<open>P\<close>.\<close>

definition mu :: "expr list" where
  "mu = map (\<lambda>rk. dot rk (frame_z Y)) (basis R)"

definition eps :: expr where
  "eps = sqrt_e (add_e (add_e (pow_e (mul_e sym_a (mu ! 0)) 2) (pow_e (mul_e sym_b (mu ! 1)) 2))
                       (pow_e (mul_e sym_c (mu ! 2)) 2))"

definition O_pos_from_P :: vector where
  "O_pos_from_P =
     vsub (vsub (smul (div_e (mul_e (mul_e (neg_e sym_a) sym_a) (mu ! 0)) eps) (frame_x R))
                (smul (div_e (mul_e (mul_e sym_b sym_b) (mu ! 1)) eps) (frame_y R)))
          (smul (div_e (mul_e (mul_e sym_c sym_c) (mu ! 2)) eps) (frame_z R))"

definition O_vel0 :: vector where
  "O_vel0 = cross R_ang_vel0 O_pos_from_P"

text \<open>Lines 43 and 44: the mass centre.\<close>

definition RO_pos_from_O :: vector where
  "RO_pos_from_O =
     vadd (vadd (smul sym_d (frame_x R)) (smul sym_e (frame_y R))) (smul sym_f (frame_z R))"

definition RO_vel0 :: vector where
  "RO_vel0 = vadd O_vel0 (cross R_ang_vel0 RO_pos_from_O)"

text \<open>Lines 47 and 48: partial angular velocities and partial velocities.\<close>

definition partial_w :: "vector list" where
  "partial_w = map (\<lambda>i. vdiff (qd i) N R_ang_vel0) [0..<3]"

definition partial_v_RO :: "vector list" where
  "partial_v_RO = map (\<lambda>i. vdiff (qd i) N RO_vel0) [0..<3]"

text \<open>Lines 50 to 56: the conditions of steady motion, applied to the velocities.\<close>

definition steady_dict :: "sym \<rightharpoonup> expr" where
  "steady_dict = map_of [(qd 1, Num 0), (qd 2, Num 0), (qdd 0, Num 0), (qdd 1, Num 0), (qdd 2, Num 0)]"

definition O_vel :: vector where
  "O_vel = vsubs steady_dict O_vel0"

definition RO_vel :: vector where
  "RO_vel = vsubs steady_dict RO_vel0"

definition R_ang_vel :: vector where
  "R_ang_vel = vsubs steady_dict R_ang_vel0"

text \<open>Line 60: the vector whose vanishing the first assertion checks.\<close>

definition RO_vel_dt :: vector where
  "RO_vel_dt = vsubs steady_dict (vdiff t R RO_vel)"

text \<open>Lines 62 to 73: acceleration, forces, generalized active and inertia forces.\<close>

definition RO_acc :: vector where
  "RO_acc = cross R_ang_vel RO_vel"

definition F_RO :: vector where
  "F_RO = smul (mul_e sym_m sym_g) (frame_z Y)"

definition gaf_RO :: "expr list" where
  "gaf_RO = map (\<lambda>pv. dot F_RO pv) partial_v_RO"

definition R_star :: vector where
  "R_star = smul (neg_e sym_m) RO_acc"

definition T_star :: vector where
  "T_star = vneg (cross R_ang_vel (dyadic_dot I_dyadic R_ang_vel))"

text \<open>Lines 76 to 83: the body of the loop, and the three lists it fills.\<close>

definition f_r_at :: "nat \<Rightarrow> expr" where
  "f_r_at i = collect (expand (gaf_RO ! i)) (mul_e sym_m sym_g)"

definition f_r_star_at :: "nat \<Rightarrow> expr" where
  "f_r_star_at i =
     collect (expand (add_e (dot R_star (partial_v_RO ! i)) (dot T_star (partial_w ! i))))
             (pow_e (Var (qd 0)) 2)"

definition f_dyn_at :: "nat \<Rightarrow> expr" where
  "f_dyn_at i = add_e (f_r_at i) (f_r_star_at i)"

definition f_dyn :: "expr list" where
  "f_dyn = fold (\<lambda>i xs. xs[i := f_dyn_at i]) [0..<3] (replicate 3 (Num 0))"

text \<open>Lines 93 to 96: the zero-spin residuals and the coefficients of the squared spin rate.\<close>

definition h0 :: "expr list" where
  "h0 = fold (\<lambda>i xs. (xs[2 * i := subs [qd 0 \<mapsto> Num 0] (f_dyn ! (i + 1))])
                        [2 * i + 1 := coeff (f_dyn ! (i + 1)) (qd 0) 2])
             [0..<2] (replicate 4 (Num 0))"

text \<open>Lines 99 to 102: the derivatives with respect to lean and pitch.\<close>

definition dh0 :: "expr list" where
  "dh0 = fold (\<lambda>i xs. fold (\<lambda>j xs. xs[2 * i + j := diff (q (j + 1)) (h0 ! i)]) [0..<2] xs)
              [0..<4] (replicate 8 (Num 0))"

text \<open>Lines 105 to 111: the functions of time are renamed to plain symbols.\<close>

definition symbol_dict :: "sym \<rightharpoonup> expr" where
  "symbol_dict = map_of
     [(q 1, Var (Symbol ''q1'')), (q 2, Var (Symbol ''q2'')), (qd 0, Var (Symbol ''qd0'')),
      (r 0, Var (Symbol ''rx'')), (r 1, Var (Symbol ''ry'')), (r 2, Var (Symbol ''rz''))]"

definition h :: "expr list" where
  "h = fold (\<lambda>i xs. xs[i := subs symbol_dict (xs ! i)]) [0..<4] h0"

definition dh :: "expr list" where
  "dh = fold (\<lambda>i xs. xs[i := subs symbol_dict (xs ! i)]) [0..<8] dh0"

section \<open>Where symbols occur\<close>

text \<open>
  \<open>occ u\<close> is the set of the symbols of \<open>u\<close>, each with a flag: \<open>True\<close> when the
  occurrence is inside an inverse, a root, a sine or a cosine, \<open>False\<close> when it is reached
  through sums, products and powers only.
\<close>


fun occ :: "expr \<Rightarrow> (sym \<times> bool) set" where
  "occ (Num k) = {}"
| "occ (Var x) = {(x, False)}"
| "occ (Add u v) = occ u \<union> occ v"
| "occ (Mul u v) = occ u \<union> occ v"
| "occ (Pow u n) = occ u"
| "occ (Inv u) = vars u \<times> {True}"
| "occ (Sqrt u) = vars u \<times> {True}"
| "occ (Sin u) = vars u \<times> {True}"
| "occ (Cos u) = vars u \<times> {True}"

fun occ3 :: "vec3 \<Rightarrow> (sym \<times> bool) set" where
  "occ3 (c1, c2, c3) = occ c1 \<union> occ c2 \<union> occ c3"

fun mocc :: "mat3 \<Rightarrow> (sym \<times> bool) set" where
  "mocc (r1, r2, r3) = occ3 r1 \<union> occ3 r2 \<union> occ3 r3"

definition vocc :: "vector \<Rightarrow> (sym \<times> bool) set" where
  "vocc v = (\<Union>p \<in> set v. occ3 (snd p))"

definition frames :: "vector \<Rightarrow> frame set" where
  "frames v = fst ` set v"

lemma vars_occ: "vars u = fst ` occ u"
  by (induction u) (auto simp: image_Un)

lemma occ_add_e: "occ (add_e u v) \<subseteq> occ u \<union> occ v"
  by (auto simp: add_e_def)

lemma occ_mul_e: "occ (mul_e u v) \<subseteq> occ u \<union> occ v"
  by (auto simp: mul_e_def)

lemma occ_neg_e: "occ (neg_e u) \<subseteq> occ u"
  using occ_mul_e [of "Num (- 1)" u] by (simp add: neg_e_def)

lemma occ_sub_e: "occ (sub_e u v) \<subseteq> occ u \<union> occ v"
  unfolding sub_e_def using occ_add_e [of u "neg_e v"] occ_neg_e [of v] by blast

lemma occ_pow_e: "occ (pow_e u n) \<subseteq> occ u"
  by (auto simp: pow_e_def)

lemma occ_div_e: "occ (div_e u v) \<subseteq> occ u \<union> vars v \<times> {True}"
  unfolding div_e_def using occ_mul_e [of u "Inv v"] by auto

lemma occ3_add3: "occ3 (add3 u v) \<subseteq> occ3 u \<union> occ3 v"
proof (cases u, cases v)
  fix u1 u2 u3 v1 v2 v3
  assume "u = (u1, u2, u3)" "v = (v1, v2, v3)"
  then show ?thesis
    using occ_add_e [of u1 v1] occ_add_e [of u2 v2] occ_add_e [of u3 v3] by auto
qed

lemma occ3_scale3: "occ3 (scale3 k v) \<subseteq> occ k \<union> occ3 v"
proof (cases v)
  fix v1 v2 v3
  assume "v = (v1, v2, v3)"
  then show ?thesis
    using occ_mul_e [of k v1] occ_mul_e [of k v2] occ_mul_e [of k v3] by auto
qed

lemma occ_dot3: "occ (dot3 u v) \<subseteq> occ3 u \<union> occ3 v"
proof (cases u, cases v)
  fix u1 u2 u3 v1 v2 v3
  assume uv: "u = (u1, u2, u3)" "v = (v1, v2, v3)"
  have "occ (dot3 u v) \<subseteq> occ (mul_e u1 v1) \<union> occ (mul_e u2 v2) \<union> occ (mul_e u3 v3)"
    unfolding uv dot3.simps
    using occ_add_e [of "add_e (mul_e u1 v1) (mul_e u2 v2)" "mul_e u3 v3"]
      occ_add_e [of "mul_e u1 v1" "mul_e u2 v2"] by blast
  then show ?thesis
    using occ_mul_e [of u1 v1] occ_mul_e [of u2 v2] occ_mul_e [of u3 v3] uv by auto
qed

lemma occ3_mat_vec: "occ3 (mat_vec A v) \<subseteq> mocc A \<union> occ3 v"
proof (cases A)
  fix r1 r2 r3
  assume "A = (r1, r2, r3)"
  then show ?thesis
    using occ_dot3 [of r1 v] occ_dot3 [of r2 v] occ_dot3 [of r3 v] by auto
qed

lemma mocc_transpose3: "mocc (transpose3 A) = mocc A"
  by (cases A rule: transpose3.cases) auto

lemma mocc_mat_mul: "mocc (mat_mul A B) \<subseteq> mocc A \<union> mocc B"
proof -
  obtain c1 c2 c3 where c: "transpose3 B = (c1, c2, c3)"
    by (cases "transpose3 B") auto
  have "mocc (transpose3 B) = occ3 c1 \<union> occ3 c2 \<union> occ3 c3"
    by (simp add: c)
  then have B: "occ3 c1 \<union> occ3 c2 \<union> occ3 c3 = mocc B"
    by (simp add: mocc_transpose3)
  have "mocc (mat_mul A B) = occ3 (mat_vec A c1) \<union> occ3 (mat_vec A c2) \<union> occ3 (mat_vec A c3)"
    by (simp add: mat_mul_def c mocc_transpose3)
  then show ?thesis
    using occ3_mat_vec [of A c1] occ3_mat_vec [of A c2] occ3_mat_vec [of A c3] B by blast
qed


lemma occ3_zero3 [simp]: "occ3 zero3 = {}"
  by (simp add: zero3_def)

lemma vocc_Nil [simp]: "vocc [] = {}"
  by (simp add: vocc_def)

lemma vocc_Cons [simp]: "vocc (p # ps) = occ3 (snd p) \<union> vocc ps"
  by (simp add: vocc_def)

lemma vocc_append [simp]: "vocc (u @ v) = vocc u \<union> vocc v"
  by (auto simp: vocc_def)

lemma frames_Nil [simp]: "frames [] = {}"
  by (simp add: frames_def)

lemma frames_Cons [simp]: "frames (p # ps) = insert (fst p) (frames ps)"
  by (simp add: frames_def)

lemma frames_append [simp]: "frames (u @ v) = frames u \<union> frames v"
  by (auto simp: frames_def)

lemma vocc_insert_part: "vocc (insert_part p ps) \<subseteq> occ3 (snd p) \<union> vocc ps"
proof (induction ps)
  case Nil
  show ?case by simp
next
  case (Cons p' ps)
  show ?case
    using Cons.IH occ3_add3 [of "snd p'" "snd p"] by auto
qed

lemma frames_insert_part: "frames (insert_part p ps) = insert (fst p) (frames ps)"
  by (induction ps) auto

lemma vocc_foldl_insert:
  "vocc (foldl (\<lambda>args p. insert_part p args) acc xs) \<subseteq> vocc acc \<union> vocc xs"
proof (induction xs arbitrary: acc)
  case Nil
  show ?case by simp
next
  case (Cons x xs)
  show ?case
    using Cons.IH [of "insert_part x acc"] vocc_insert_part [of x acc] by auto
qed

lemma frames_foldl_insert:
  "frames (foldl (\<lambda>args p. insert_part p args) acc xs) = frames acc \<union> frames xs"
  by (induction xs arbitrary: acc) (auto simp: frames_insert_part)

lemma vocc_filter: "vocc (filter P v) \<subseteq> vocc v"
  by (auto simp: vocc_def)

lemma frames_filter: "frames (filter P v) \<subseteq> frames v"
  by (auto simp: frames_def)

lemma vocc_Vector: "vocc (Vector ps) \<subseteq> vocc ps"
  unfolding Vector_def
  using vocc_filter [of "\<lambda>p. snd p \<noteq> zero3" "foldl (\<lambda>args p. insert_part p args) [] ps"]
    vocc_foldl_insert [of "[]" ps] by auto

lemma frames_Vector: "frames (Vector ps) \<subseteq> frames ps"
  unfolding Vector_def
  using frames_filter [of "\<lambda>p. snd p \<noteq> zero3" "foldl (\<lambda>args p. insert_part p args) [] ps"]
  by (simp add: frames_foldl_insert)

text \<open>
  \<open>vok S FS v\<close>: every occurrence of a symbol in the components of \<open>v\<close> is in \<open>S\<close> and every
  frame of \<open>v\<close> is in \<open>FS\<close>.
\<close>

definition vok :: "(sym \<times> bool) set \<Rightarrow> frame set \<Rightarrow> vector \<Rightarrow> bool" where
  "vok S FS v \<longleftrightarrow> vocc v \<subseteq> S \<and> frames v \<subseteq> FS"

lemma vok_Nil [simp]: "vok S FS []"
  by (simp add: vok_def)

lemma vok_mono: "vok S FS v \<Longrightarrow> S \<subseteq> S' \<Longrightarrow> FS \<subseteq> FS' \<Longrightarrow> vok S' FS' v"
  by (auto simp: vok_def)

lemma vok_Vector: "vok S FS ps \<Longrightarrow> vok S FS (Vector ps)"
  using vocc_Vector [of ps] frames_Vector [of ps] by (auto simp: vok_def)

lemma vok_vadd: "vok S FS u \<Longrightarrow> vok S FS v \<Longrightarrow> vok S FS (vadd u v)"
  unfolding vadd_def by (rule vok_Vector) (simp add: vok_def)

lemma vok_scaled: "occ k \<subseteq> S \<Longrightarrow> vok S FS v \<Longrightarrow> vok S FS (map (\<lambda>p. (fst p, scale3 k (snd p))) v)"
proof (induction v)
  case Nil
  show ?case by simp
next
  case (Cons p ps)
  then have "vok S FS ps" by (simp add: vok_def)
  with Cons have "vok S FS (map (\<lambda>p. (fst p, scale3 k (snd p))) ps)" by simp
  moreover have "occ3 (scale3 k (snd p)) \<subseteq> S"
    using occ3_scale3 [of k "snd p"] Cons.prems by (auto simp: vok_def)
  moreover have "fst p \<in> FS" using Cons.prems by (simp add: vok_def)
  ultimately show ?case by (simp add: vok_def)
qed

lemma vok_smul: "occ k \<subseteq> S \<Longrightarrow> vok S FS v \<Longrightarrow> vok S FS (smul k v)"
  unfolding smul_def by (rule vok_Vector) (rule vok_scaled)

lemma vok_vneg: "vok S FS v \<Longrightarrow> vok S FS (vneg v)"
  unfolding vneg_def by (rule vok_smul) simp_all

lemma vok_vsub: "vok S FS u \<Longrightarrow> vok S FS v \<Longrightarrow> vok S FS (vsub u v)"
  unfolding vsub_def by (intro vok_vadd vok_vneg)

lemma frame_x_eq: "frame_x F = [(F, (Num 1, Num 0, Num 0))]"
  by (simp add: frame_x_def Vector_def zero3_def)

lemma frame_y_eq: "frame_y F = [(F, (Num 0, Num 1, Num 0))]"
  by (simp add: frame_y_def Vector_def zero3_def)

lemma frame_z_eq: "frame_z F = [(F, (Num 0, Num 0, Num 1))]"
  by (simp add: frame_z_def Vector_def zero3_def)

lemma vok_frame_x: "F \<in> FS \<Longrightarrow> vok S FS (frame_x F)"
  by (simp add: frame_x_eq vok_def)

lemma vok_frame_y: "F \<in> FS \<Longrightarrow> vok S FS (frame_y F)"
  by (simp add: frame_y_eq vok_def)

lemma vok_frame_z: "F \<in> FS \<Longrightarrow> vok S FS (frame_z F)"
  by (simp add: frame_z_eq vok_def)


definition trig :: "(sym \<times> bool) set" where
  "trig = {q 1, q 2} \<times> {True}"

lemma mocc_eye3 [simp]: "mocc eye3 = {}"
  by (simp add: eye3_def)

lemma mocc_orient_L: "mocc (orient L) \<subseteq> trig"
  by (simp add: trig_def cos_e_def sin_e_def neg_e_def mul_e_def)

lemma mocc_orient_R: "mocc (orient R) \<subseteq> trig"
  by (simp add: trig_def cos_e_def sin_e_def neg_e_def mul_e_def)

lemma mocc_orient_Y: "mocc (orient Y) \<subseteq> {(q 0, True)}"
  by (simp add: cos_e_def sin_e_def neg_e_def mul_e_def)

lemma mocc_chain: "F \<noteq> N \<Longrightarrow> G \<noteq> N \<Longrightarrow> mocc (chain F G) \<subseteq> trig"
  using mocc_orient_L mocc_orient_R mocc_mat_mul [of "orient L" "orient R"]
  by (cases F; cases G) auto

lemma mocc_dcm: "F \<noteq> N \<Longrightarrow> G \<noteq> N \<Longrightarrow> mocc (dcm F G) \<subseteq> trig"
  by (simp add: dcm_def mocc_chain mocc_transpose3)

lemma mocc_chain_all: "mocc (chain F G) \<subseteq> {q 0, q 1, q 2} \<times> {True}"
proof -
  have a: "mocc (mat_mul (orient L) (orient R)) \<subseteq> {q 0, q 1, q 2} \<times> {True}"
    using mocc_orient_L mocc_orient_R mocc_mat_mul [of "orient L" "orient R"]
    by (auto simp: trig_def)
  have b: "mocc (mat_mul (orient Y) (orient L)) \<subseteq> {q 0, q 1, q 2} \<times> {True}"
    using mocc_orient_L mocc_orient_Y mocc_mat_mul [of "orient Y" "orient L"]
    by (auto simp: trig_def)
  have c: "mocc (mat_mul (orient Y) (mat_mul (orient L) (orient R))) \<subseteq> {q 0, q 1, q 2} \<times> {True}"
    using a mocc_orient_Y mocc_mat_mul [of "orient Y" "mat_mul (orient L) (orient R)"]
    by blast
  have d: "mocc (orient F') \<subseteq> {q 0, q 1, q 2} \<times> {True}" for F'
    using mocc_orient_L mocc_orient_R mocc_orient_Y by (cases F') (auto simp: trig_def)
  show ?thesis
    using a b c d [of Y] d [of L] d [of R] by (cases F; cases G) simp_all
qed

lemma mocc_dcm_all: "mocc (dcm F G) \<subseteq> {q 0, q 1, q 2} \<times> {True}"
  using mocc_chain_all [of F G] mocc_chain_all [of G F]
  by (cases "depth F \<le> depth G") (simp_all only: dcm_def mocc_transpose3 if_True if_False)

lemma occ_foldl_step:
  "(\<And>out p. p \<in> set xs \<Longrightarrow> occ out \<subseteq> S \<Longrightarrow> occ (step out p) \<subseteq> S) \<Longrightarrow> occ out \<subseteq> S
     \<Longrightarrow> occ (foldl step out xs) \<subseteq> S"
  by (induction xs arbitrary: out) simp_all

lemma vok_foldl_step:
  "(\<And>out p. p \<in> set xs \<Longrightarrow> vok S FS out \<Longrightarrow> vok S FS (step out p)) \<Longrightarrow> vok S FS out
     \<Longrightarrow> vok S FS (foldl step out xs)"
  by (induction xs arbitrary: out) simp_all

lemma occ_dot:
  assumes "trig \<subseteq> S" "vok S FS u" "vok S FS' v" "N \<notin> FS" "N \<notin> FS'"
  shows "occ (dot u v) \<subseteq> S"
  unfolding dot_def
proof (rule occ_foldl_step)
  show "occ (Num 0) \<subseteq> S" by simp
next
  fix out p1
  assume p1: "p1 \<in> set u" and out: "occ out \<subseteq> S"
  show "occ (foldl (\<lambda>out p2. add_e out (dot3 (snd p2) (mat_vec (dcm (fst p2) (fst p1)) (snd p1)))) out v) \<subseteq> S"
  proof (rule occ_foldl_step)
    show "occ out \<subseteq> S" by (rule out)
  next
    fix out' p2
    assume p2: "p2 \<in> set v" and out': "occ out' \<subseteq> S"
    have f1: "fst p1 \<noteq> N" and c1: "occ3 (snd p1) \<subseteq> S"
      using p1 assms(2,4) by (auto simp: vok_def vocc_def frames_def)
    have f2: "fst p2 \<noteq> N" and c2: "occ3 (snd p2) \<subseteq> S"
      using p2 assms(3,5) by (auto simp: vok_def vocc_def frames_def)
    have "mocc (dcm (fst p2) (fst p1)) \<subseteq> S"
      using mocc_dcm [OF f2 f1] assms(1) by blast
    then have "occ3 (mat_vec (dcm (fst p2) (fst p1)) (snd p1)) \<subseteq> S"
      using occ3_mat_vec [of "dcm (fst p2) (fst p1)" "snd p1"] c1 by blast
    then have "occ (dot3 (snd p2) (mat_vec (dcm (fst p2) (fst p1)) (snd p1))) \<subseteq> S"
      using occ_dot3 [of "snd p2" "mat_vec (dcm (fst p2) (fst p1)) (snd p1)"] c2 by blast
    then show "occ (add_e out' (dot3 (snd p2) (mat_vec (dcm (fst p2) (fst p1)) (snd p1)))) \<subseteq> S"
      using occ_add_e [of out' "dot3 (snd p2) (mat_vec (dcm (fst p2) (fst p1)) (snd p1))"] out'
      by blast
  qed
qed

lemma vok_cross_part:
  assumes "trig \<subseteq> S" "vok S FS u" "N \<notin> FS" "fst p \<in> FS'" "N \<notin> FS'" "occ3 (snd p) \<subseteq> S"
  shows "vok S FS' [cross_part u p]"
proof -
  obtain F c1 c2 c3 where p: "p = (F, (c1, c2, c3))" by (cases p) auto
  have F: "F \<in> FS'" and c: "occ c1 \<subseteq> S" "occ c2 \<subseteq> S" "occ c3 \<subseteq> S"
    using assms(4,6) by (auto simp: p)
  have m: "occ (dot u (frame_x F)) \<subseteq> S" "occ (dot u (frame_y F)) \<subseteq> S" "occ (dot u (frame_z F)) \<subseteq> S"
    using occ_dot [OF assms(1,2) _ assms(3,5)] vok_frame_x [OF F] vok_frame_y [OF F] vok_frame_z [OF F]
    by blast+
  have s: "occ (sub_e (mul_e m1 a1) (mul_e m2 a2)) \<subseteq> S"
    if "occ m1 \<subseteq> S" "occ a1 \<subseteq> S" "occ m2 \<subseteq> S" "occ a2 \<subseteq> S" for m1 a1 m2 a2
    using that occ_sub_e [of "mul_e m1 a1" "mul_e m2 a2"] occ_mul_e [of m1 a1] occ_mul_e [of m2 a2]
    by blast
  show ?thesis
    using s m c F by (simp add: cross_part_def p vok_def Let_def)
qed

lemma vok_cross:
  assumes "trig \<subseteq> S" "vok S FS u" "vok S FS' v" "N \<notin> FS" "N \<notin> FS'"
  shows "vok S FS' (cross u v)"
  unfolding cross_def
proof (rule vok_foldl_step)
  show "vok S FS' []" by simp
next
  fix out p
  assume p: "p \<in> set v" and out: "vok S FS' out"
  have "fst p \<in> FS'" "occ3 (snd p) \<subseteq> S"
    using p assms(3) by (auto simp: vok_def vocc_def frames_def)
  then have "vok S FS' [cross_part u p]"
    using vok_cross_part [OF assms(1,2,4) _ assms(5)] by blast
  with out show "vok S FS' (vadd out [cross_part u p])" by (rule vok_vadd)
qed

lemma vok_dyadic_dot:
  assumes "trig \<subseteq> S" "\<And>k u w. (k, u, w) \<in> set D \<Longrightarrow> occ k \<subseteq> S \<and> vok S FS u \<and> vok S FS w"
    "vok S FS' v" "N \<notin> FS" "N \<notin> FS'"
  shows "vok S FS (dyadic_dot D v)"
  unfolding dyadic_dot_def
proof (rule vok_foldl_step)
  show "vok S FS []" by simp
next
  fix out p
  assume p: "p \<in> set D" and out: "vok S FS out"
  obtain k u w where kuw: "p = (k, u, w)" by (cases p) auto
  have k: "occ k \<subseteq> S" and u: "vok S FS u" and w: "vok S FS w"
    using assms(2) p kuw by blast+
  have "occ (dot w v) \<subseteq> S"
    using occ_dot [OF assms(1) w assms(3,4,5)] .
  then have "occ (mul_e k (dot w v)) \<subseteq> S"
    using occ_mul_e [of k "dot w v"] k by blast
  then have "vok S FS (smul (mul_e k (dot w v)) u)"
    using u by (rule vok_smul)
  with out show "vok S FS (case p of (k, u, w) \<Rightarrow> vadd out (smul (mul_e k (dot w v)) u))"
    by (simp add: kuw vok_vadd)
qed


lemma t_neq_Dyn [simp]: "t \<noteq> Dyn n k" "Dyn n k \<noteq> t"
  by (simp_all add: t_def)

lemma diff_zero: "x \<noteq> t \<Longrightarrow> x \<notin> vars u \<Longrightarrow> diff x u = Num 0"
proof (induction u)
  case (Var y)
  then show ?case by (cases y) auto
qed (simp_all add: add_e_def mul_e_def)

lemma occ_diff: "x \<noteq> t \<Longrightarrow> (x, True) \<notin> occ u \<Longrightarrow> occ (diff x u) \<subseteq> occ u"
proof (induction u)
  case (Num k)
  show ?case by simp
next
  case (Var y)
  then show ?case by (cases y) auto
next
  case (Add u v)
  then show ?case
    using occ_add_e [of "diff x u" "diff x v"] by auto
next
  case (Mul u v)
  then have "occ (diff x u) \<subseteq> occ u" "occ (diff x v) \<subseteq> occ v" by auto
  then have "occ (add_e (mul_e (diff x u) v) (mul_e u (diff x v))) \<subseteq> occ u \<union> occ v"
    using occ_add_e [of "mul_e (diff x u) v" "mul_e u (diff x v)"]
      occ_mul_e [of "diff x u" v] occ_mul_e [of u "diff x v"] by blast
  then show ?case by simp
next
  case (Pow u n)
  then have "occ (diff x u) \<subseteq> occ u" by auto
  then show ?case
    using occ_mul_e [of "mul_e (Num (int n)) (pow_e u (n - 1))" "diff x u"]
      occ_mul_e [of "Num (int n)" "pow_e u (n - 1)"] occ_pow_e [of u "n - 1"] by auto
next
  case (Inv u)
  then have "diff x u = Num 0" by (auto intro: diff_zero)
  then show ?case by (simp add: mul_e_def)
next
  case (Sqrt u)
  then have "diff x u = Num 0" by (auto intro: diff_zero)
  then show ?case by (simp add: mul_e_def)
next
  case (Sin u)
  then have "diff x u = Num 0" by (auto intro: diff_zero)
  then show ?case by (simp add: mul_e_def)
next
  case (Cos u)
  then have "diff x u = Num 0" by (auto intro: diff_zero)
  then show ?case by (simp add: mul_e_def)
qed

lemma vars_add_e: "vars (add_e u v) \<subseteq> vars u \<union> vars v"
  by (auto simp: add_e_def)

lemma vars_mul_e: "vars (mul_e u v) \<subseteq> vars u \<union> vars v"
  by (auto simp: mul_e_def)

lemma vars_neg_e: "vars (neg_e u) \<subseteq> vars u"
  using vars_mul_e [of "Num (- 1)" u] by (simp add: neg_e_def)

lemma vars_pow_e: "vars (pow_e u n) \<subseteq> vars u"
  by (auto simp: pow_e_def)

lemma vars_sin_e: "vars (sin_e u) \<subseteq> vars u"
  by (auto simp: sin_e_def)

lemma vars_cos_e: "vars (cos_e u) \<subseteq> vars u"
  by (auto simp: cos_e_def)

text \<open>The symbols of a derivative with respect to a symbol other than the time.\<close>

lemma vars_diff: "x \<noteq> t \<Longrightarrow> vars (diff x u) \<subseteq> vars u"
proof (induction u)
  case (Num k)
  show ?case by simp
next
  case (Var y)
  then show ?case by (cases y) auto
next
  case (Add u v)
  then show ?case using vars_add_e [of "diff x u" "diff x v"] by auto
next
  case (Mul u v)
  then have "vars (diff x u) \<subseteq> vars u" "vars (diff x v) \<subseteq> vars v" by auto
  then have "vars (add_e (mul_e (diff x u) v) (mul_e u (diff x v))) \<subseteq> vars u \<union> vars v"
    using vars_add_e [of "mul_e (diff x u) v" "mul_e u (diff x v)"]
      vars_mul_e [of "diff x u" v] vars_mul_e [of u "diff x v"] by blast
  then show ?case by simp
next
  case (Pow u n)
  then show ?case
    using vars_mul_e [of "mul_e (Num (int n)) (pow_e u (n - 1))" "diff x u"]
      vars_mul_e [of "Num (int n)" "pow_e u (n - 1)"] vars_pow_e [of u "n - 1"] by auto
next
  case (Inv u)
  then show ?case
    using vars_mul_e [of "neg_e (Inv (Pow u 2))" "diff x u"] vars_neg_e [of "Inv (Pow u 2)"] by auto
next
  case (Sqrt u)
  then show ?case
    using vars_mul_e [of "Inv (Mul (Num 2) (Sqrt u))" "diff x u"] by auto
next
  case (Sin u)
  then show ?case
    using vars_mul_e [of "Cos u" "diff x u"] by auto
next
  case (Cos u)
  then show ?case
    using vars_mul_e [of "neg_e (Sin u)" "diff x u"] vars_neg_e [of "Sin u"] by auto
qed

text \<open>The symbols that a substitution leaves or brings in.\<close>

definition subs_vars :: "(sym \<rightharpoonup> expr) \<Rightarrow> sym set \<Rightarrow> sym set" where
  "subs_vars \<sigma> V = {y \<in> V. \<sigma> y = None} \<union> (\<Union>y \<in> V. case \<sigma> y of None \<Rightarrow> {} | Some u \<Rightarrow> vars u)"

lemma subs_vars_Un: "subs_vars \<sigma> (A \<union> B) = subs_vars \<sigma> A \<union> subs_vars \<sigma> B"
  by (auto simp: subs_vars_def)

lemma subs_vars_mono: "A \<subseteq> B \<Longrightarrow> subs_vars \<sigma> A \<subseteq> subs_vars \<sigma> B"
  by (auto simp: subs_vars_def)

lemma vars_subs: "vars (subs \<sigma> u) \<subseteq> subs_vars \<sigma> (vars u)"
proof (induction u)
  case (Num k)
  show ?case by simp
next
  case (Var y)
  show ?case by (cases "\<sigma> y") (auto simp: subs_vars_def)
next
  case (Add u v)
  then show ?case
    using vars_add_e [of "subs \<sigma> u" "subs \<sigma> v"] by (auto simp: subs_vars_Un)
next
  case (Mul u v)
  then show ?case
    using vars_mul_e [of "subs \<sigma> u" "subs \<sigma> v"] by (auto simp: subs_vars_Un)
next
  case (Pow u n)
  then show ?case using vars_pow_e [of "subs \<sigma> u" n] by auto
next
  case (Inv u)
  then show ?case by simp
next
  case (Sqrt u)
  then show ?case by (simp add: sqrt_e_def)
next
  case (Sin u)
  then show ?case using vars_sin_e [of "subs \<sigma> u"] by auto
next
  case (Cos u)
  then show ?case using vars_cos_e [of "subs \<sigma> u"] by auto
qed

lemma occ_sin_e: "occ (sin_e u) \<subseteq> vars u \<times> {True}"
  by (auto simp: sin_e_def)

lemma occ_cos_e: "occ (cos_e u) \<subseteq> vars u \<times> {True}"
  by (auto simp: cos_e_def)

text \<open>A substitution whose values are numbers only removes occurrences.\<close>

lemma occ_subs:
  assumes "\<And>y u. \<sigma> y = Some u \<Longrightarrow> vars u = {}"
  shows "occ (subs \<sigma> u) \<subseteq> {p \<in> occ u. \<sigma> (fst p) = None}"
proof -
  have sv: "subs_vars \<sigma> V = {y \<in> V. \<sigma> y = None}" for V
    using assms by (auto simp: subs_vars_def split: option.splits)
  have v: "vars (subs \<sigma> w) \<subseteq> {y \<in> vars w. \<sigma> y = None}" for w
    using vars_subs [of \<sigma> w] by (simp add: sv)
  show ?thesis
  proof (induction u)
    case (Num k)
    show ?case by simp
  next
    case (Var y)
    show ?case
    proof (cases "\<sigma> y")
      case None
      then show ?thesis by simp
    next
      case (Some w)
      then have "occ w = {}" using assms [of y w] by (simp add: vars_occ)
      with Some show ?thesis by simp
    qed
  next
    case (Add u v)
    then show ?case using occ_add_e [of "subs \<sigma> u" "subs \<sigma> v"] by auto
  next
    case (Mul u v)
    then show ?case using occ_mul_e [of "subs \<sigma> u" "subs \<sigma> v"] by auto
  next
    case (Pow u n)
    then show ?case using occ_pow_e [of "subs \<sigma> u" n] by auto
  next
    case (Inv u)
    show ?case using v [of u] by auto
  next
    case (Sqrt u)
    show ?case using v [of u] by (auto simp: sqrt_e_def)
  next
    case (Sin u)
    show ?case using v [of u] occ_sin_e [of "subs \<sigma> u"] by auto
  next
    case (Cos u)
    show ?case using v [of u] occ_cos_e [of "subs \<sigma> u"] by auto
  qed
qed


lemma map_mat_diff_zero:
  assumes "x \<noteq> t" "x \<notin> fst ` mocc A"
  shows "map_mat (diff x) A = (zero3, zero3, zero3)"
proof -
  obtain a11 a12 a13 a21 a22 a23 a31 a32 a33
    where A: "A = ((a11, a12, a13), (a21, a22, a23), (a31, a32, a33))"
    by (cases A rule: transpose3.cases) auto
  have "x \<notin> vars w" if "occ w \<subseteq> mocc A" for w
    using that assms(2) by (auto simp: vars_occ)
  then have d: "diff x w = Num 0" if "occ w \<subseteq> mocc A" for w
    using that diff_zero [OF assms(1)] by blast
  have "diff x a11 = Num 0" "diff x a12 = Num 0" "diff x a13 = Num 0"
    "diff x a21 = Num 0" "diff x a22 = Num 0" "diff x a23 = Num 0"
    "diff x a31 = Num 0" "diff x a32 = Num 0" "diff x a33 = Num 0"
    by (rule d, auto simp: A)+
  then show ?thesis
    by (simp add: A map_mat_def zero3_def)
qed

lemma q_neq_qd [simp]: "q i \<noteq> qd j" "qd j \<noteq> q i" "q i \<noteq> qdd j" "qdd j \<noteq> q i"
  "qd i \<noteq> qdd j" "qdd j \<noteq> qd i" "q i \<noteq> t" "qd i \<noteq> t" "qdd i \<noteq> t"
  "q i \<noteq> Symbol n" "qd i \<noteq> Symbol n" "qdd i \<noteq> Symbol n"
  "Symbol n \<noteq> q i" "Symbol n \<noteq> qd i" "Symbol n \<noteq> qdd i"
  by (simp_all add: q_def qd_def qdd_def t_def)

lemma vdiff_part_eq:
  assumes "x \<noteq> t" "x \<notin> {q 0, q 1, q 2}"
  shows "vdiff_part x F p = (fst p, map3 (diff x) (snd p))"
proof -
  have "x \<notin> fst ` mocc (dcm F (fst p))"
    using mocc_dcm_all [of F "fst p"] assms(2) by auto
  then have "map_mat (diff x) (dcm F (fst p)) = (zero3, zero3, zero3)"
    using assms(1) by (rule map_mat_diff_zero [rotated])
  then show ?thesis by (simp add: vdiff_part_def)
qed

lemma occ3_map3_diff:
  assumes "x \<noteq> t" "(x, True) \<notin> occ3 c"
  shows "occ3 (map3 (diff x) c) \<subseteq> occ3 c"
proof -
  obtain c1 c2 c3 where c: "c = (c1, c2, c3)" by (cases c) auto
  show ?thesis
    using assms(2) occ_diff [OF assms(1), of c1] occ_diff [OF assms(1), of c2]
      occ_diff [OF assms(1), of c3] by (auto simp: c)
qed

lemma vok_vdiff:
  assumes "x \<noteq> t" "x \<notin> {q 0, q 1, q 2}" "(x, True) \<notin> S" "vok S FS v"
  shows "vok S FS (vdiff x F v)"
  unfolding vdiff_def
proof (rule vok_foldl_step)
  show "vok S FS []" by simp
next
  fix out p
  assume p: "p \<in> set v" and out: "vok S FS out"
  have f: "fst p \<in> FS" and c: "occ3 (snd p) \<subseteq> S"
    using p assms(4) by (auto simp: vok_def vocc_def frames_def)
  have "occ3 (map3 (diff x) (snd p)) \<subseteq> S"
    using occ3_map3_diff [OF assms(1), of "snd p"] c assms(3) by blast
  then have "vok S FS [vdiff_part x F p]"
    using f by (simp add: vdiff_part_eq [OF assms(1,2)] vok_def)
  with out show "vok S FS (vadd out [vdiff_part x F p])" by (rule vok_vadd)
qed

lemma occ3_map3_subs:
  assumes "\<And>y u. \<sigma> y = Some u \<Longrightarrow> vars u = {}"
  shows "occ3 (map3 (subs \<sigma>) c) \<subseteq> {p \<in> occ3 c. \<sigma> (fst p) = None}"
proof -
  obtain c1 c2 c3 where c: "c = (c1, c2, c3)" by (cases c) auto
  show ?thesis
    using occ_subs [of \<sigma> c1] occ_subs [of \<sigma> c2] occ_subs [of \<sigma> c3] assms by (auto simp: c)
qed

lemma vok_vsubs:
  assumes "\<And>y u. \<sigma> y = Some u \<Longrightarrow> vars u = {}" "vok S FS v"
  shows "vok {p \<in> S. \<sigma> (fst p) = None} FS (vsubs \<sigma> v)"
  unfolding vsubs_def
proof (rule vok_foldl_step)
  show "vok {p \<in> S. \<sigma> (fst p) = None} FS []" by simp
next
  fix out p
  assume p: "p \<in> set v" and out: "vok {p \<in> S. \<sigma> (fst p) = None} FS out"
  have f: "fst p \<in> FS" and c: "occ3 (snd p) \<subseteq> S"
    using p assms(2) by (auto simp: vok_def vocc_def frames_def)
  have "occ3 (map3 (subs \<sigma>) (snd p)) \<subseteq> {p \<in> S. \<sigma> (fst p) = None}"
    using occ3_map3_subs [of \<sigma> "snd p"] assms(1) c by blast
  then have "vok {p \<in> S. \<sigma> (fst p) = None} FS [(fst p, map3 (subs \<sigma>) (snd p))]"
    using f by (simp add: vok_def)
  with out show "vok {p \<in> S. \<sigma> (fst p) = None} FS (vadd out [(fst p, map3 (subs \<sigma>) (snd p))])"
    by (rule vok_vadd)
qed

text \<open>The symbols the derivation may use, and where.\<close>

definition params :: "sym set" where
  "params = Symbol ` {''g'', ''m'', ''a'', ''b'', ''c'', ''d'', ''e'', ''f'',
                      ''Ixx'', ''Iyy'', ''Izz'', ''Ixy'', ''Iyz'', ''Ixz''}"

definition shape :: "(sym \<times> bool) set" where
  "shape = (params \<union> {q 1, q 2}) \<times> UNIV"

definition kin0 :: "(sym \<times> bool) set" where
  "kin0 = shape \<union> {qd 0, qd 1, qd 2} \<times> {False}"

definition kin :: "(sym \<times> bool) set" where
  "kin = shape \<union> {(qd 0, False)}"

lemma trig_shape: "trig \<subseteq> shape"
  by (auto simp: trig_def shape_def)

lemma shape_kin0: "shape \<subseteq> kin0"
  by (auto simp: kin0_def)

lemma shape_kin: "shape \<subseteq> kin"
  by (auto simp: kin_def)

lemma kin_kin0: "kin \<subseteq> kin0"
  by (auto simp: kin_def kin0_def)

lemma occ_params:
  "occ sym_g \<subseteq> shape" "occ sym_m \<subseteq> shape" "occ sym_a \<subseteq> shape" "occ sym_b \<subseteq> shape"
  "occ sym_c \<subseteq> shape" "occ sym_d \<subseteq> shape" "occ sym_e \<subseteq> shape" "occ sym_f \<subseteq> shape"
  "occ Ixx \<subseteq> shape" "occ Iyy \<subseteq> shape" "occ Izz \<subseteq> shape"
  "occ Ixy \<subseteq> shape" "occ Iyz \<subseteq> shape" "occ Ixz \<subseteq> shape"
  by (simp_all add: shape_def params_def sym_g_def sym_m_def sym_a_def sym_b_def sym_c_def
      sym_d_def sym_e_def sym_f_def Ixx_def Iyy_def Izz_def Ixy_def Iyz_def Ixz_def)

lemma shape_opaque: "occ u \<subseteq> shape \<Longrightarrow> vars u \<times> {True} \<subseteq> shape"
  by (auto simp: shape_def vars_occ)

lemma mu_nth:
  "mu ! 0 = dot (frame_x R) (frame_z Y)" "mu ! 1 = dot (frame_y R) (frame_z Y)"
  "mu ! 2 = dot (frame_z R) (frame_z Y)"
  by (simp_all add: mu_def basis_def)

lemma occ_mu: "occ (mu ! 0) \<subseteq> shape" "occ (mu ! 1) \<subseteq> shape" "occ (mu ! 2) \<subseteq> shape"
  unfolding mu_nth
  by (rule occ_dot [OF trig_shape, of "{R}" _ "{Y}"]; simp add: vok_frame_x vok_frame_y vok_frame_z)+

lemma occ_eps: "occ eps \<subseteq> shape"
proof -
  have p: "occ (pow_e (mul_e k w) 2) \<subseteq> shape" if "occ k \<subseteq> shape" "occ w \<subseteq> shape" for k w
    using that occ_pow_e [of "mul_e k w" 2] occ_mul_e [of k w] by blast
  let ?A = "pow_e (mul_e sym_a (mu ! 0)) 2" and ?B = "pow_e (mul_e sym_b (mu ! 1)) 2"
    and ?C = "pow_e (mul_e sym_c (mu ! 2)) 2"
  have "occ (add_e (add_e ?A ?B) ?C) \<subseteq> shape"
    using occ_add_e [of "add_e ?A ?B" ?C] occ_add_e [of ?A ?B]
      p [OF occ_params(3) occ_mu(1)] p [OF occ_params(4) occ_mu(2)] p [OF occ_params(5) occ_mu(3)]
    by blast
  then show ?thesis
    unfolding eps_def sqrt_e_def occ.simps by (rule shape_opaque)
qed

lemma vok_O_pos_from_P: "vok shape {R} O_pos_from_P"
proof -
  have k: "occ (div_e (mul_e (mul_e k1 k2) w) eps) \<subseteq> shape"
    if "occ k1 \<subseteq> shape" "occ k2 \<subseteq> shape" "occ w \<subseteq> shape" for k1 k2 w
    using that occ_div_e [of "mul_e (mul_e k1 k2) w" eps] occ_mul_e [of "mul_e k1 k2" w]
      occ_mul_e [of k1 k2] shape_opaque [OF occ_eps] by blast
  have n: "occ (neg_e sym_a) \<subseteq> shape"
    using occ_neg_e [of sym_a] occ_params(3) by blast
  show ?thesis
    unfolding O_pos_from_P_def
    by (intro vok_vsub vok_smul vok_frame_x vok_frame_y vok_frame_z k n occ_params occ_mu) simp_all
qed

lemma vok_RO_pos_from_O: "vok shape {R} RO_pos_from_O"
  unfolding RO_pos_from_O_def
  by (intro vok_vadd vok_smul vok_frame_x vok_frame_y vok_frame_z occ_params) simp_all

lemma vok_R_ang_vel0: "vok kin0 {Y, L} R_ang_vel0"
  unfolding R_ang_vel0_def
  by (intro vok_vadd vok_smul vok_frame_x vok_frame_y vok_frame_z) (simp_all add: kin0_def)

lemma trig_kin0: "trig \<subseteq> kin0"
  using trig_shape shape_kin0 by blast

lemma trig_kin: "trig \<subseteq> kin"
  using trig_shape shape_kin by blast

lemma vok_O_vel0: "vok kin0 {R} O_vel0"
  unfolding O_vel0_def
  by (rule vok_cross [OF trig_kin0 vok_R_ang_vel0 vok_mono [OF vok_O_pos_from_P shape_kin0 subset_refl]])
    simp_all

lemma vok_RO_vel0: "vok kin0 {R} RO_vel0"
  unfolding RO_vel0_def
  by (intro vok_vadd vok_O_vel0
      vok_cross [OF trig_kin0 vok_R_ang_vel0 vok_mono [OF vok_RO_pos_from_O shape_kin0 subset_refl]])
    simp_all

lemma nth_upt3: "i < 3 \<Longrightarrow> map h' [0..<3] ! i = h' i"
  by simp

lemma qd_True_kin0: "(qd i, True) \<notin> kin0"
  by (auto simp: kin0_def shape_def params_def)

lemma qd_not_q: "qd i \<notin> {q 0, q 1, q 2}"
  by simp

lemma vok_partial_w: "i < 3 \<Longrightarrow> vok kin0 {Y, L} (partial_w ! i)"
  unfolding partial_w_def
  by (simp only: nth_upt3) (rule vok_vdiff [OF _ qd_not_q qd_True_kin0 vok_R_ang_vel0], simp)

lemma vok_partial_v_RO: "i < 3 \<Longrightarrow> vok kin0 {R} (partial_v_RO ! i)"
  unfolding partial_v_RO_def
  by (simp only: nth_upt3) (rule vok_vdiff [OF _ qd_not_q qd_True_kin0 vok_RO_vel0], simp)


lemma qd_distinct [simp]: "qd 0 \<noteq> qd 1" "qd 0 \<noteq> qd 2" "qd 1 \<noteq> qd 2" "qd 1 \<noteq> qd 0" "qd 2 \<noteq> qd 0" "qd 2 \<noteq> qd 1"
  by (simp_all add: qd_def)

lemma q_distinct [simp]: "q 0 \<noteq> q 1" "q 0 \<noteq> q 2" "q 1 \<noteq> q 2" "q 1 \<noteq> q 0" "q 2 \<noteq> q 0" "q 2 \<noteq> q 1"
  by (simp_all add: q_def)

lemma steady_closed: "steady_dict y = Some u \<Longrightarrow> vars u = {}"
  by (auto simp: steady_dict_def split: if_splits)

lemma steady_kin: "{p \<in> kin0. steady_dict (fst p) = None} \<subseteq> kin"
  by (auto simp: kin0_def kin_def steady_dict_def)

lemma vok_RO_vel: "vok kin {R} RO_vel"
  unfolding RO_vel_def
  by (rule vok_mono [OF vok_vsubs [OF steady_closed vok_RO_vel0] steady_kin subset_refl])

lemma vok_O_vel: "vok kin {R} O_vel"
  unfolding O_vel_def
  by (rule vok_mono [OF vok_vsubs [OF steady_closed vok_O_vel0] steady_kin subset_refl])

lemma vok_R_ang_vel: "vok kin {Y, L} R_ang_vel"
  unfolding R_ang_vel_def
  by (rule vok_mono [OF vok_vsubs [OF steady_closed vok_R_ang_vel0] steady_kin subset_refl])

lemma vok_RO_acc: "vok kin {R} RO_acc"
  unfolding RO_acc_def
  by (rule vok_cross [OF trig_kin vok_R_ang_vel vok_RO_vel]) simp_all

lemma vok_F_RO: "vok shape {Y} F_RO"
proof -
  have "occ (mul_e sym_m sym_g) \<subseteq> shape"
    using occ_mul_e [of sym_m sym_g] occ_params(1,2) by blast
  then show ?thesis
    unfolding F_RO_def by (intro vok_smul vok_frame_z) simp_all
qed

lemma vok_R_star: "vok kin {R} R_star"
proof -
  have "occ (neg_e sym_m) \<subseteq> kin"
    using occ_neg_e [of sym_m] occ_params(2) shape_kin by blast
  then show ?thesis
    unfolding R_star_def by (intro vok_smul vok_RO_acc)
qed

lemma vok_I_dyadic:
  "(k, u, w) \<in> set I_dyadic \<Longrightarrow> occ k \<subseteq> kin \<and> vok kin {R} u \<and> vok kin {R} w"
  using occ_params(9-14) shape_kin
  by (auto simp: I_dyadic_def inertia_def intro!: vok_frame_x vok_frame_y vok_frame_z)

lemma vok_T_star: "vok kin {R} T_star"
proof -
  have "vok kin {R} (dyadic_dot I_dyadic R_ang_vel)"
    by (rule vok_dyadic_dot [OF trig_kin vok_I_dyadic vok_R_ang_vel]) simp_all
  then have "vok kin {R} (cross R_ang_vel (dyadic_dot I_dyadic R_ang_vel))"
    by (rule vok_cross [OF trig_kin vok_R_ang_vel]) simp_all
  then show ?thesis
    unfolding T_star_def by (rule vok_vneg)
qed

lemma length_partial [simp]: "length partial_w = 3" "length partial_v_RO = 3"
  by (simp_all add: partial_w_def partial_v_RO_def)

lemma gaf_RO_nth: "i < 3 \<Longrightarrow> gaf_RO ! i = dot F_RO (partial_v_RO ! i)"
  by (simp add: gaf_RO_def)

lemma occ_f_dyn_at: "i < 3 \<Longrightarrow> occ (f_dyn_at i) \<subseteq> kin0"
proof -
  assume i: "i < 3"
  have a: "occ (dot F_RO (partial_v_RO ! i)) \<subseteq> kin0"
    by (rule occ_dot [OF trig_kin0 vok_mono [OF vok_F_RO shape_kin0 subset_refl]
          vok_partial_v_RO [OF i]]) simp_all
  have b: "occ (dot R_star (partial_v_RO ! i)) \<subseteq> kin0"
    by (rule occ_dot [OF trig_kin0 vok_mono [OF vok_R_star kin_kin0 subset_refl]
          vok_partial_v_RO [OF i]]) simp_all
  have c: "occ (dot T_star (partial_w ! i)) \<subseteq> kin0"
    by (rule occ_dot [OF trig_kin0 vok_mono [OF vok_T_star kin_kin0 subset_refl]
          vok_partial_w [OF i]]) simp_all
  have "occ (add_e (dot R_star (partial_v_RO ! i)) (dot T_star (partial_w ! i))) \<subseteq> kin0"
    using occ_add_e [of "dot R_star (partial_v_RO ! i)" "dot T_star (partial_w ! i)"] b c
    by blast
  then show ?thesis
    unfolding f_dyn_at_def f_r_at_def f_r_star_at_def expand_def collect_def gaf_RO_nth [OF i]
    using a occ_add_e [of "dot F_RO (partial_v_RO ! i)"
        "add_e (dot R_star (partial_v_RO ! i)) (dot T_star (partial_w ! i))"]
    by blast
qed

lemma f_dyn_eq: "f_dyn = [f_dyn_at 0, f_dyn_at 1, f_dyn_at 2]"
  by (simp add: f_dyn_def upt_rec numeral_3_eq_3 numeral_2_eq_2)

lemma q0_not_kin0: "q 0 \<notin> fst ` kin0"
  by (auto simp: kin0_def shape_def params_def q_def qd_def)

lemma diff_q0_f_dyn_at: "i < 3 \<Longrightarrow> diff (q 0) (f_dyn_at i) = Num 0"
proof (rule diff_zero)
  show "q 0 \<noteq> t" by simp
next
  assume "i < 3"
  then show "q 0 \<notin> vars (f_dyn_at i)"
    using occ_f_dyn_at [of i] q0_not_kin0 by (auto simp: vars_occ)
qed


lemma h0_eq:
  "h0 = [subs [qd 0 \<mapsto> Num 0] (f_dyn ! 1), coeff (f_dyn ! 1) (qd 0) 2,
         subs [qd 0 \<mapsto> Num 0] (f_dyn ! 2), coeff (f_dyn ! 2) (qd 0) 2]"
  by (simp add: h0_def upt_rec numeral_eq_Suc)

lemma length_h0 [simp]: "length h0 = 4"
  by (simp add: h0_eq)

lemma dh0_eq:
  "dh0 = [diff (q 1) (h0 ! 0), diff (q 2) (h0 ! 0), diff (q 1) (h0 ! 1), diff (q 2) (h0 ! 1),
          diff (q 1) (h0 ! 2), diff (q 2) (h0 ! 2), diff (q 1) (h0 ! 3), diff (q 2) (h0 ! 3)]"
  by (simp add: dh0_def upt_rec numeral_eq_Suc)

lemma length_dh0 [simp]: "length dh0 = 8"
  by (simp add: dh0_eq)

lemma fold_update_map:
  "n \<le> length xs \<Longrightarrow> fold (\<lambda>i ys. ys[i := g (ys ! i)]) [0..<n] xs = map g (take n xs) @ drop n xs"
proof (induction n)
  case 0
  show ?case by simp
next
  case (Suc n)
  then have n: "n < length xs" by simp
  have "fold (\<lambda>i ys. ys[i := g (ys ! i)]) [0..<Suc n] xs
      = (map g (take n xs) @ drop n xs)[n := g ((map g (take n xs) @ drop n xs) ! n)]"
    using Suc by simp
  also have "\<dots> = map g (take n xs) @ (g (xs ! n) # drop (Suc n) xs)"
    using n by (simp add: list_update_append nth_append Cons_nth_drop_Suc [symmetric])
  also have "\<dots> = map g (take (Suc n) xs) @ drop (Suc n) xs"
    using n by (simp add: take_Suc_conv_app_nth)
  finally show ?case .
qed

lemma h_eq: "h = map (subs symbol_dict) h0"
  unfolding h_def using fold_update_map [of 4 h0 "subs symbol_dict"] by simp

lemma dh_eq: "dh = map (subs symbol_dict) dh0"
  unfolding dh_def using fold_update_map [of 8 dh0 "subs symbol_dict"] by simp

lemma dh0_nth: "i < 4 \<Longrightarrow> j < 2 \<Longrightarrow> dh0 ! (2 * i + j) = diff (q (j + 1)) (h0 ! i)"
proof -
  assume "i < 4" "j < 2"
  then have "i \<in> {0, 1, 2, 3}" "j \<in> {0, 1}" by auto
  then show ?thesis by (auto simp: dh0_eq numeral_2_eq_2 numeral_3_eq_3)
qed

text \<open>The symbols of the coefficients of a polynomial are symbols of the expression.\<close>

definition lvars :: "expr list \<Rightarrow> sym set" where
  "lvars cs = (\<Union>u \<in> set cs. vars u)"

lemma lvars_simps [simp]: "lvars [] = {}" "lvars (u # cs) = vars u \<union> lvars cs"
  by (simp_all add: lvars_def)

lemma lvars_padd: "lvars (padd xs ys) \<subseteq> lvars xs \<union> lvars ys"
proof (induction xs ys rule: padd.induct)
  case (3 x xs y ys)
  then show ?case using vars_add_e [of x y] by auto
qed simp_all

lemma lvars_map_mul_e: "lvars (map (mul_e x) ys) \<subseteq> vars x \<union> lvars ys"
proof (induction ys)
  case (Cons y ys)
  then show ?case using vars_mul_e [of x y] by auto
qed simp

lemma lvars_pmul: "lvars (pmul xs ys) \<subseteq> lvars xs \<union> lvars ys"
proof (induction xs)
  case Nil
  show ?case by simp
next
  case (Cons x xs)
  have "lvars (pmul (x # xs) ys) \<subseteq> lvars (map (mul_e x) ys) \<union> lvars (Num 0 # pmul xs ys)"
    using lvars_padd [of "map (mul_e x) ys" "Num 0 # pmul xs ys"] by simp
  then show ?case
    using Cons lvars_map_mul_e [of x ys] by auto
qed

lemma lvars_ppow: "lvars (ppow xs n) \<subseteq> lvars xs"
proof (induction n)
  case 0
  show ?case by simp
next
  case (Suc n)
  then show ?case using lvars_pmul [of xs "ppow xs n"] by auto
qed

lemma lvars_coeffs: "lvars (coeffs x u) \<subseteq> vars u"
proof (induction u)
  case (Add u v)
  then show ?case using lvars_padd [of "coeffs x u" "coeffs x v"] by auto
next
  case (Mul u v)
  then show ?case using lvars_pmul [of "coeffs x u" "coeffs x v"] by auto
next
  case (Pow u n)
  then show ?case using lvars_ppow [of "coeffs x u" n] by auto
qed auto

lemma vars_coeff: "vars (coeff u x n) \<subseteq> vars u"
proof (cases "n < length (coeffs x u)")
  case True
  then have "coeffs x u ! n \<in> set (coeffs x u)"
    by (rule nth_mem)
  then have "vars (coeffs x u ! n) \<subseteq> lvars (coeffs x u)"
    unfolding lvars_def by blast
  then show ?thesis
    using True lvars_coeffs [of x u] by (simp add: coeff_def Let_def)
next
  case False
  then show ?thesis by (simp add: coeff_def Let_def)
qed

text \<open>The friction coefficient occurs nowhere in the derivation.\<close>

lemma s_not_kin0: "Symbol ''s'' \<notin> fst ` kin0"
  by (auto simp: kin0_def shape_def params_def q_def qd_def)

lemma f_dyn_nth: "f_dyn ! 0 = f_dyn_at 0" "f_dyn ! 1 = f_dyn_at 1" "f_dyn ! 2 = f_dyn_at 2"
  by (simp_all add: f_dyn_eq)

lemma vars_f_dyn: "vars (f_dyn ! 1) \<subseteq> fst ` kin0" "vars (f_dyn ! 2) \<subseteq> fst ` kin0"
  unfolding f_dyn_nth vars_occ using occ_f_dyn_at [of 1] occ_f_dyn_at [of 2] by auto

lemma vars_subs_qd0: "vars (subs [qd 0 \<mapsto> Num 0] u) \<subseteq> vars u"
  using vars_subs [of "[qd 0 \<mapsto> Num 0]" u] by (auto simp: subs_vars_def split: if_splits)

lemma vars_h0: "u \<in> set h0 \<Longrightarrow> vars u \<subseteq> fst ` kin0"
  using vars_f_dyn vars_subs_qd0 [of "f_dyn ! 1"] vars_subs_qd0 [of "f_dyn ! 2"]
    vars_coeff [of "f_dyn ! 1" "qd 0" 2] vars_coeff [of "f_dyn ! 2" "qd 0" 2]
  by (auto simp: h0_eq)

lemma vars_dh0: "u \<in> set dh0 \<Longrightarrow> vars u \<subseteq> fst ` kin0"
proof -
  have d: "vars (diff (q j) (h0 ! i)) \<subseteq> fst ` kin0" if "i < 4" for i j
  proof -
    have "h0 ! i \<in> set h0" using that by simp
    then show ?thesis
      using vars_h0 [of "h0 ! i"] vars_diff [of "q j" "h0 ! i"] by auto
  qed
  have "list_all (\<lambda>u. vars u \<subseteq> fst ` kin0) dh0"
    unfolding dh0_eq list.pred_inject by (intro conjI d TrueI) simp_all
  moreover assume "u \<in> set dh0"
  ultimately show ?thesis by (simp add: list_all_iff)
qed

lemma s_not_symbol_dict: "Symbol ''s'' \<notin> vars u \<Longrightarrow> Symbol ''s'' \<notin> vars (subs symbol_dict u)"
proof -
  assume s: "Symbol ''s'' \<notin> vars u"
  have "Symbol ''s'' \<notin> subs_vars symbol_dict (vars u)"
    using s by (auto simp: subs_vars_def symbol_dict_def split: option.splits if_splits)
  then show ?thesis using vars_subs [of symbol_dict u] by blast
qed

lemma s_not_h: "u \<in> set h \<Longrightarrow> Symbol ''s'' \<notin> vars u"
  using vars_h0 s_not_kin0 s_not_symbol_dict by (auto simp: h_eq)

lemma s_not_dh: "u \<in> set dh \<Longrightarrow> Symbol ''s'' \<notin> vars u"
  using vars_dh0 s_not_kin0 s_not_symbol_dict by (auto simp: dh_eq)


lemma mul_e_zero [simp]: "mul_e (Num 0) u = Num 0" "mul_e u (Num 0) = Num 0"
  by (simp_all add: mul_e_def)

lemma add_e_zero [simp]: "add_e (Num 0) u = u" "add_e u (Num 0) = u"
  by (simp_all add: add_e_def)

text \<open>Substitution goes through the evaluating operators.\<close>

lemma subs_add_e: "subs \<sigma> (add_e u v) = add_e (subs \<sigma> u) (subs \<sigma> v)"
  by (simp add: add_e_def)

lemma subs_mul_e: "subs \<sigma> (mul_e u v) = mul_e (subs \<sigma> u) (subs \<sigma> v)"
  by (simp add: mul_e_def)

text \<open>
  \<open>still \<sigma> u\<close>: the time does not occur in \<open>u\<close>, and \<open>\<sigma>\<close> sends the time derivative of
  every function of time of \<open>u\<close> to zero.
\<close>

definition still :: "(sym \<rightharpoonup> expr) \<Rightarrow> expr \<Rightarrow> bool" where
  "still \<sigma> u \<longleftrightarrow> (\<forall>y \<in> vars u. y \<noteq> t \<and> (\<forall>n k. y = Dyn n k \<longrightarrow> \<sigma> (Dyn n (Suc k)) = Some (Num 0)))"

lemma still_simps [simp]:
  "still \<sigma> (Num k)"
  "still \<sigma> (Add u v) \<longleftrightarrow> still \<sigma> u \<and> still \<sigma> v"
  "still \<sigma> (Mul u v) \<longleftrightarrow> still \<sigma> u \<and> still \<sigma> v"
  "still \<sigma> (Pow u n) \<longleftrightarrow> still \<sigma> u"
  "still \<sigma> (Inv u) \<longleftrightarrow> still \<sigma> u"
  "still \<sigma> (Sqrt u) \<longleftrightarrow> still \<sigma> u"
  "still \<sigma> (Sin u) \<longleftrightarrow> still \<sigma> u"
  "still \<sigma> (Cos u) \<longleftrightarrow> still \<sigma> u"
  by (auto simp: still_def)

lemma subs_diff_t: "still \<sigma> u \<Longrightarrow> subs \<sigma> (diff t u) = Num 0"
proof (induction u)
  case (Var y)
  then show ?case by (cases y) (auto simp: still_def t_def)
qed (simp_all add: subs_add_e subs_mul_e)

definition vnull :: "(sym \<rightharpoonup> expr) \<Rightarrow> vector \<Rightarrow> bool" where
  "vnull \<sigma> v \<longleftrightarrow> (\<forall>p \<in> set v. map3 (subs \<sigma>) (snd p) = zero3)"

lemma map3_subs_add3:
  "map3 (subs \<sigma>) c = zero3 \<Longrightarrow> map3 (subs \<sigma>) c' = zero3 \<Longrightarrow> map3 (subs \<sigma>) (add3 c c') = zero3"
  by (cases c; cases c') (simp add: zero3_def subs_add_e add_e_def)

lemma vnull_insert_part:
  "map3 (subs \<sigma>) (snd p) = zero3 \<Longrightarrow> vnull \<sigma> ps \<Longrightarrow> vnull \<sigma> (insert_part p ps)"
  by (induction ps) (auto simp: vnull_def map3_subs_add3)

lemma vnull_foldl_insert:
  "vnull \<sigma> acc \<Longrightarrow> vnull \<sigma> xs \<Longrightarrow> vnull \<sigma> (foldl (\<lambda>args p. insert_part p args) acc xs)"
proof (induction xs arbitrary: acc)
  case Nil
  then show ?case by simp
next
  case (Cons x xs)
  from Cons.prems have x: "map3 (subs \<sigma>) (snd x) = zero3" and xs: "vnull \<sigma> xs"
    by (simp_all add: vnull_def)
  have "vnull \<sigma> (insert_part x acc)"
    using x Cons.prems(1) by (rule vnull_insert_part)
  then show ?case using Cons.IH xs by simp
qed

lemma vnull_Vector: "vnull \<sigma> ps \<Longrightarrow> vnull \<sigma> (Vector ps)"
  using vnull_foldl_insert [of \<sigma> "[]" ps] by (auto simp: Vector_def vnull_def)

lemma vnull_vadd: "vnull \<sigma> u \<Longrightarrow> vnull \<sigma> v \<Longrightarrow> vnull \<sigma> (vadd u v)"
  unfolding vadd_def by (rule vnull_Vector) (auto simp: vnull_def)

lemma vnull_foldl_step:
  "(\<And>out p. p \<in> set xs \<Longrightarrow> vnull \<sigma> out \<Longrightarrow> vnull \<sigma> (step out p)) \<Longrightarrow> vnull \<sigma> out
     \<Longrightarrow> vnull \<sigma> (foldl step out xs)"
  by (induction xs arbitrary: out) simp_all

lemma vnull_vdiff_t:
  assumes "frames v \<subseteq> {F}" "\<And>p. p \<in> set v \<Longrightarrow> map3 (subs \<sigma> \<circ> diff t) (snd p) = zero3"
  shows "vnull \<sigma> (vdiff t F v)"
  unfolding vdiff_def
proof (rule vnull_foldl_step)
  show "vnull \<sigma> []" by (simp add: vnull_def)
next
  fix out p
  assume p: "p \<in> set v" and out: "vnull \<sigma> out"
  have "fst p = F" using p assms(1) by (auto simp: frames_def)
  then have "vdiff_part t F p = (F, map3 (diff t) (snd p))"
    by (simp add: vdiff_part_def)
  moreover have "map3 (subs \<sigma>) (map3 (diff t) (snd p)) = zero3"
    using assms(2) [OF p] by (cases "snd p") simp
  ultimately have "vnull \<sigma> [vdiff_part t F p]"
    by (simp add: vnull_def)
  with out show "vnull \<sigma> (vadd out [vdiff_part t F p])" by (rule vnull_vadd)
qed

lemma vsubs_vnull: "vnull \<sigma> v \<Longrightarrow> vsubs \<sigma> v = []"
proof -
  assume v: "vnull \<sigma> v"
  have "foldl (\<lambda>out p. vadd out [(fst p, map3 (subs \<sigma>) (snd p))]) [] xs = []"
    if "set xs \<subseteq> set v" for xs
    using that
  proof (induction xs rule: rev_induct)
    case Nil
    show ?case by simp
  next
    case (snoc x xs)
    then have "map3 (subs \<sigma>) (snd x) = zero3" using v by (auto simp: vnull_def)
    then show ?case using snoc by (simp add: vadd_def Vector_def)
  qed
  then show ?thesis by (simp add: vsubs_def)
qed

lemma fst_kin: "fst ` kin = params \<union> {q 1, q 2, qd 0}"
  by (auto simp: kin_def shape_def image_Un)

lemma still_sym:
  assumes "y \<in> params \<union> {q 1, q 2, qd 0}"
  shows "y \<noteq> t \<and> (\<forall>n k. y = Dyn n k \<longrightarrow> steady_dict (Dyn n (Suc k)) = Some (Num 0))"
proof -
  consider "y \<in> params" | "y = q 1" | "y = q 2" | "y = qd 0" using assms by auto
  then show ?thesis
  proof cases
    case 1
    then show ?thesis by (auto simp: params_def t_def)
  next
    case 2
    then show ?thesis by (simp add: q_def qd_def qdd_def steady_dict_def)
  next
    case 3
    then show ?thesis by (simp add: q_def qd_def qdd_def steady_dict_def)
  next
    case 4
    then show ?thesis by (simp add: q_def qd_def qdd_def steady_dict_def)
  qed
qed

lemma still_kin: "occ u \<subseteq> kin \<Longrightarrow> still steady_dict u"
proof -
  assume "occ u \<subseteq> kin"
  then have "vars u \<subseteq> params \<union> {q 1, q 2, qd 0}"
    unfolding vars_occ fst_kin [symmetric] by blast
  then show ?thesis
    unfolding still_def using still_sym by blast
qed

lemma RO_vel_dt_Nil: "RO_vel_dt = []"
  unfolding RO_vel_dt_def
proof (rule vsubs_vnull, rule vnull_vdiff_t)
  show "frames RO_vel \<subseteq> {R}"
    using vok_RO_vel by (simp add: vok_def)
next
  fix p
  assume p: "p \<in> set RO_vel"
  obtain c1 c2 c3 where c: "snd p = (c1, c2, c3)" by (cases "snd p") auto
  have "occ3 (snd p) \<subseteq> kin"
    using p vok_RO_vel by (auto simp: vok_def vocc_def)
  then have "still steady_dict c1" "still steady_dict c2" "still steady_dict c3"
    by (auto simp: c intro!: still_kin)
  then show "map3 (subs steady_dict \<circ> diff t) (snd p) = zero3"
    by (simp add: c zero3_def subs_diff_t)
qed


section \<open>The value of expressions and vectors\<close>

lemma eval_add_e [simp]: "eval env (add_e u v) = eval env u + eval env v"
  by (simp add: add_e_def)

lemma eval_mul_e [simp]: "eval env (mul_e u v) = eval env u * eval env v"
  by (simp add: mul_e_def)

lemma eval_neg_e [simp]: "eval env (neg_e u) = - eval env u"
  by (simp add: neg_e_def)

lemma eval_sub_e [simp]: "eval env (sub_e u v) = eval env u - eval env v"
  by (simp add: sub_e_def)

lemma eval_pow_e [simp]: "eval env (pow_e u n) = eval env u ^ n"
  by (simp add: pow_e_def)

lemma eval_div_e [simp]: "eval env (div_e u v) = eval env u / eval env v"
  by (simp add: div_e_def divide_inverse)

lemma eval_sqrt_e [simp]: "eval env (sqrt_e u) = sqrt (eval env u)"
  by (simp add: sqrt_e_def)

lemma eval_sin_e [simp]: "eval env (sin_e u) = sin (eval env u)"
  by (simp add: sin_e_def)

lemma eval_cos_e [simp]: "eval env (cos_e u) = cos (eval env u)"
  by (simp add: cos_e_def)

text \<open>Real vectors and matrices, as triples.\<close>

type_synonym rvec = "real \<times> real \<times> real"
type_synonym rmat = "rvec \<times> rvec \<times> rvec"

fun ev3 :: "(sym \<Rightarrow> real) \<Rightarrow> vec3 \<Rightarrow> rvec" where
  "ev3 env (c1, c2, c3) = (eval env c1, eval env c2, eval env c3)"

fun evm :: "(sym \<Rightarrow> real) \<Rightarrow> mat3 \<Rightarrow> rmat" where
  "evm env (r1, r2, r3) = (ev3 env r1, ev3 env r2, ev3 env r3)"

definition rzero :: rvec where
  "rzero = (0, 0, 0)"

fun radd :: "rvec \<Rightarrow> rvec \<Rightarrow> rvec" where
  "radd (a1, a2, a3) (b1, b2, b3) = (a1 + b1, a2 + b2, a3 + b3)"

fun rscale :: "real \<Rightarrow> rvec \<Rightarrow> rvec" where
  "rscale k (a1, a2, a3) = (k * a1, k * a2, k * a3)"

fun rdot :: "rvec \<Rightarrow> rvec \<Rightarrow> real" where
  "rdot (a1, a2, a3) (b1, b2, b3) = a1 * b1 + a2 * b2 + a3 * b3"

fun rcross :: "rvec \<Rightarrow> rvec \<Rightarrow> rvec" where
  "rcross (a1, a2, a3) (b1, b2, b3) = (a2 * b3 - a3 * b2, a3 * b1 - a1 * b3, a1 * b2 - a2 * b1)"

fun rmv :: "rmat \<Rightarrow> rvec \<Rightarrow> rvec" where
  "rmv (r1, r2, r3) a = (rdot r1 a, rdot r2 a, rdot r3 a)"

fun rtr :: "rmat \<Rightarrow> rmat" where
  "rtr ((a11, a12, a13), (a21, a22, a23), (a31, a32, a33)) =
     ((a11, a21, a31), (a12, a22, a32), (a13, a23, a33))"

definition rmm :: "rmat \<Rightarrow> rmat \<Rightarrow> rmat" where
  "rmm A B = (case rtr B of (c1, c2, c3) \<Rightarrow> rtr (rmv A c1, rmv A c2, rmv A c3))"

definition rid :: rmat where
  "rid = ((1, 0, 0), (0, 1, 0), (0, 0, 1))"

lemma rvec_cases: obtains a1 a2 a3 where "a = (a1, a2, a3)"
  by (cases a) auto

lemma rmat_cases:
  obtains a11 a12 a13 a21 a22 a23 a31 a32 a33
  where "A = ((a11, a12, a13), (a21, a22, a23), (a31, a32, a33))"
  by (cases A) auto

lemma radd_rzero [simp]: "radd rzero a = a" "radd a rzero = a"
  by (cases a rule: rvec_cases, simp add: rzero_def)+

lemma radd_assoc: "radd (radd a b) c = radd a (radd b c)"
  by (cases a rule: rvec_cases, cases b rule: rvec_cases, cases c rule: rvec_cases) simp

lemma radd_commute: "radd a b = radd b a"
  by (cases a rule: rvec_cases, cases b rule: rvec_cases) simp

lemma rscale_radd: "rscale k (radd a b) = radd (rscale k a) (rscale k b)"
  by (cases a rule: rvec_cases, cases b rule: rvec_cases) (simp add: algebra_simps)

lemma rscale_rzero [simp]: "rscale k rzero = rzero" "rscale 0 a = rzero"
  by (simp add: rzero_def, cases a rule: rvec_cases, simp add: rzero_def)

lemma rscale_one [simp]: "rscale 1 a = a"
  by (cases a rule: rvec_cases) simp

lemma rscale_rscale [simp]: "rscale k (rscale l a) = rscale (k * l) a"
  by (cases a rule: rvec_cases) simp

lemma rdot_radd_left: "rdot (radd a b) c = rdot a c + rdot b c"
  by (cases a rule: rvec_cases, cases b rule: rvec_cases, cases c rule: rvec_cases)
    (simp add: algebra_simps)

lemma rdot_radd_right: "rdot c (radd a b) = rdot c a + rdot c b"
  by (cases a rule: rvec_cases, cases b rule: rvec_cases, cases c rule: rvec_cases)
    (simp add: algebra_simps)

lemma rdot_rzero [simp]: "rdot rzero a = 0" "rdot a rzero = 0"
  by (cases a rule: rvec_cases, simp add: rzero_def)+

lemma rdot_rscale [simp]: "rdot (rscale k a) b = k * rdot a b" "rdot a (rscale k b) = k * rdot a b"
  by (cases a rule: rvec_cases, cases b rule: rvec_cases, simp add: algebra_simps)+

lemma rdot_commute: "rdot a b = rdot b a"
  by (cases a rule: rvec_cases, cases b rule: rvec_cases) simp

lemma rcross_radd_left: "rcross (radd a b) c = radd (rcross a c) (rcross b c)"
  by (cases a rule: rvec_cases, cases b rule: rvec_cases, cases c rule: rvec_cases)
    (simp add: algebra_simps)

lemma rcross_radd_right: "rcross c (radd a b) = radd (rcross c a) (rcross c b)"
  by (cases a rule: rvec_cases, cases b rule: rvec_cases, cases c rule: rvec_cases)
    (simp add: algebra_simps)

lemma rcross_rzero [simp]: "rcross rzero a = rzero" "rcross a rzero = rzero"
  by (cases a rule: rvec_cases, simp add: rzero_def)+

lemma rcross_rscale [simp]:
  "rcross (rscale k a) b = rscale k (rcross a b)" "rcross a (rscale k b) = rscale k (rcross a b)"
  by (cases a rule: rvec_cases, cases b rule: rvec_cases, simp add: algebra_simps)+

lemma rdot_rcross_self [simp]: "rdot a (rcross a b) = 0" "rdot (rcross a b) a = 0"
  "rdot b (rcross a b) = 0" "rdot (rcross a b) b = 0"
  by (cases a rule: rvec_cases, cases b rule: rvec_cases, simp add: algebra_simps)+

lemma rmv_radd: "rmv A (radd a b) = radd (rmv A a) (rmv A b)"
  by (cases A rule: rmat_cases, cases a rule: rvec_cases, cases b rule: rvec_cases)
    (simp add: algebra_simps)

lemma rmv_rscale: "rmv A (rscale k a) = rscale k (rmv A a)"
  by (cases A rule: rmat_cases, cases a rule: rvec_cases) (simp add: algebra_simps)

lemma rmv_rzero [simp]: "rmv A rzero = rzero"
  by (cases A rule: rmat_cases) (simp add: rzero_def)

lemma rmv_rid [simp]: "rmv rid a = a"
  by (cases a rule: rvec_cases) (simp add: rid_def)

lemma rmv_rmm: "rmv (rmm A B) a = rmv A (rmv B a)"
  by (cases A rule: rmat_cases, cases B rule: rmat_cases, cases a rule: rvec_cases)
    (simp add: rmm_def algebra_simps)

lemma rdot_rmv_rtr: "rdot a (rmv (rtr A) b) = rdot (rmv A a) b"
  by (cases A rule: rmat_cases, cases a rule: rvec_cases, cases b rule: rvec_cases)
    (simp add: algebra_simps)

lemma rtr_rtr [simp]: "rtr (rtr A) = A"
  by (cases A rule: rmat_cases) simp

lemma rtr_rid [simp]: "rtr rid = rid"
  by (simp add: rid_def)

lemma rmm_rid [simp]: "rmm rid A = A" "rmm A rid = A"
  by (cases A rule: rmat_cases, simp add: rmm_def rid_def)+

lemma rmm_assoc: "rmm (rmm A B) C = rmm A (rmm B C)"
  by (cases A rule: rmat_cases, cases B rule: rmat_cases, cases C rule: rmat_cases)
    (simp add: rmm_def algebra_simps)

lemma rtr_rmm: "rtr (rmm A B) = rmm (rtr B) (rtr A)"
  by (cases A rule: rmat_cases, cases B rule: rmat_cases) (simp add: rmm_def algebra_simps)

lemma ev3_zero3 [simp]: "ev3 env zero3 = rzero"
  by (simp add: zero3_def rzero_def)

lemma ev3_add3 [simp]: "ev3 env (add3 u v) = radd (ev3 env u) (ev3 env v)"
  by (cases u; cases v) simp

lemma ev3_scale3 [simp]: "ev3 env (scale3 k v) = rscale (eval env k) (ev3 env v)"
  by (cases v) simp

lemma eval_dot3 [simp]: "eval env (dot3 u v) = rdot (ev3 env u) (ev3 env v)"
  by (cases u; cases v) simp

lemma ev3_mat_vec [simp]: "ev3 env (mat_vec A v) = rmv (evm env A) (ev3 env v)"
  by (cases A) simp

lemma evm_transpose3 [simp]: "evm env (transpose3 A) = rtr (evm env A)"
  by (cases A rule: transpose3.cases) simp

lemma evm_mat_mul [simp]: "evm env (mat_mul A B) = rmm (evm env A) (evm env B)"
  by (cases A rule: transpose3.cases, cases B rule: transpose3.cases) (simp add: mat_mul_def rmm_def)

lemma evm_eye3 [simp]: "evm env eye3 = rid"
  by (simp add: eye3_def rid_def)


text \<open>Rotations: orthogonal matrices that preserve the cross product.\<close>

definition rot :: "rmat \<Rightarrow> bool" where
  "rot M \<longleftrightarrow> rmm (rtr M) M = rid \<and> rmm M (rtr M) = rid
     \<and> (\<forall>a b. rmv M (rcross a b) = rcross (rmv M a) (rmv M b))"

lemma rot_rid: "rot rid"
  by (simp add: rot_def)

lemma rot_rmm:
  assumes "rot A" "rot B"
  shows "rot (rmm A B)"
proof -
  have A: "rmm (rtr A) A = rid" "rmm A (rtr A) = rid" and B: "rmm (rtr B) B = rid" "rmm B (rtr B) = rid"
    using assms by (simp_all add: rot_def)
  have "rmm (rtr (rmm A B)) (rmm A B) = rmm (rtr B) (rmm (rmm (rtr A) A) B)"
    by (simp add: rtr_rmm rmm_assoc)
  then have 1: "rmm (rtr (rmm A B)) (rmm A B) = rid"
    by (simp add: A B)
  have "rmm (rmm A B) (rtr (rmm A B)) = rmm A (rmm (rmm B (rtr B)) (rtr A))"
    by (simp add: rtr_rmm rmm_assoc)
  then have 2: "rmm (rmm A B) (rtr (rmm A B)) = rid"
    by (simp add: A B)
  have cA: "rmv A (rcross a b) = rcross (rmv A a) (rmv A b)" for a b
    using assms(1) unfolding rot_def by blast
  have cB: "rmv B (rcross a b) = rcross (rmv B a) (rmv B b)" for a b
    using assms(2) unfolding rot_def by blast
  have 3: "rmv (rmm A B) (rcross a b) = rcross (rmv (rmm A B) a) (rmv (rmm A B) b)" for a b
    by (simp add: rmv_rmm cA cB)
  show ?thesis
    unfolding rot_def using 1 2 3 by blast
qed

lemma rot_rtr_rmv: "rot M \<Longrightarrow> rmv M (rmv (rtr M) a) = a"
  using rmv_rmm [of M "rtr M" a] by (simp add: rot_def)

lemma rot_cross: "rot M \<Longrightarrow> rmv M (rcross a b) = rcross (rmv M a) (rmv M b)"
  unfolding rot_def by blast

lemma rot_x:
  fixes c s :: real
  assumes "c * c + s * s = 1"
  shows "rot ((1, 0, 0), (0, c, - s), (0, s, c))"
proof -
  have 1: "rmm (rtr ((1, 0, 0), (0, c, - s), (0, s, c))) ((1, 0, 0), (0, c, - s), (0, s, c)) = rid"
    using assms by (simp add: rmm_def rid_def algebra_simps)
  have 2: "rmm ((1, 0, 0), (0, c, - s), (0, s, c)) (rtr ((1, 0, 0), (0, c, - s), (0, s, c))) = rid"
    using assms by (simp add: rmm_def rid_def algebra_simps)
  have 3: "rmv ((1, 0, 0), (0, c, - s), (0, s, c)) (rcross a b)
      = rcross (rmv ((1, 0, 0), (0, c, - s), (0, s, c)) a) (rmv ((1, 0, 0), (0, c, - s), (0, s, c)) b)"
    for a b
  proof (cases a rule: rvec_cases, cases b rule: rvec_cases)
    fix a1 a2 a3 b1 b2 b3 :: real
    assume ab: "a = (a1, a2, a3)" "b = (b1, b2, b3)"
    have "(c * a2 - s * a3) * (s * b2 + c * b3) - (s * a2 + c * a3) * (c * b2 - s * b3)
        = (c * c + s * s) * (a2 * b3 - a3 * b2)"
      by (simp add: algebra_simps)
    then show ?thesis
      using assms by (simp add: ab algebra_simps)
  qed
  show ?thesis
    unfolding rot_def using 1 2 3 by blast
qed

lemma rot_y:
  fixes c s :: real
  assumes "c * c + s * s = 1"
  shows "rot ((c, 0, s), (0, 1, 0), (- s, 0, c))"
proof -
  have 1: "rmm (rtr ((c, 0, s), (0, 1, 0), (- s, 0, c))) ((c, 0, s), (0, 1, 0), (- s, 0, c)) = rid"
    using assms by (simp add: rmm_def rid_def algebra_simps)
  have 2: "rmm ((c, 0, s), (0, 1, 0), (- s, 0, c)) (rtr ((c, 0, s), (0, 1, 0), (- s, 0, c))) = rid"
    using assms by (simp add: rmm_def rid_def algebra_simps)
  have 3: "rmv ((c, 0, s), (0, 1, 0), (- s, 0, c)) (rcross a b)
      = rcross (rmv ((c, 0, s), (0, 1, 0), (- s, 0, c)) a) (rmv ((c, 0, s), (0, 1, 0), (- s, 0, c)) b)"
    for a b
  proof (cases a rule: rvec_cases, cases b rule: rvec_cases)
    fix a1 a2 a3 b1 b2 b3 :: real
    assume ab: "a = (a1, a2, a3)" "b = (b1, b2, b3)"
    have "(c * a3 - s * a1) * (c * b1 + s * b3) - (c * a1 + s * a3) * (c * b3 - s * b1)
        = (c * c + s * s) * (a3 * b1 - a1 * b3)"
      by (simp add: algebra_simps)
    then show ?thesis
      using assms by (simp add: ab algebra_simps)
  qed
  show ?thesis
    unfolding rot_def using 1 2 3 by blast
qed

lemma rot_z:
  fixes c s :: real
  assumes "c * c + s * s = 1"
  shows "rot ((c, - s, 0), (s, c, 0), (0, 0, 1))"
proof -
  have 1: "rmm (rtr ((c, - s, 0), (s, c, 0), (0, 0, 1))) ((c, - s, 0), (s, c, 0), (0, 0, 1)) = rid"
    using assms by (simp add: rmm_def rid_def algebra_simps)
  have 2: "rmm ((c, - s, 0), (s, c, 0), (0, 0, 1)) (rtr ((c, - s, 0), (s, c, 0), (0, 0, 1))) = rid"
    using assms by (simp add: rmm_def rid_def algebra_simps)
  have 3: "rmv ((c, - s, 0), (s, c, 0), (0, 0, 1)) (rcross a b)
      = rcross (rmv ((c, - s, 0), (s, c, 0), (0, 0, 1)) a) (rmv ((c, - s, 0), (s, c, 0), (0, 0, 1)) b)"
    for a b
  proof (cases a rule: rvec_cases, cases b rule: rvec_cases)
    fix a1 a2 a3 b1 b2 b3 :: real
    assume ab: "a = (a1, a2, a3)" "b = (b1, b2, b3)"
    have "(c * a1 - s * a2) * (s * b1 + c * b2) - (s * a1 + c * a2) * (c * b1 - s * b2)
        = (c * c + s * s) * (a1 * b2 - a2 * b1)"
      by (simp add: algebra_simps)
    then show ?thesis
      using assms by (simp add: ab algebra_simps)
  qed
  show ?thesis
    unfolding rot_def using 1 2 3 by blast
qed

lemma cos_sin_one: "cos x * cos x + sin x * sin (x::real) = 1"
  using sin_cos_squared_add3 [of x] by simp

lemma evm_orient:
  "evm env (orient N) = rid"
  "evm env (orient Y) = ((cos (env (q 0)), - sin (env (q 0)), 0), (sin (env (q 0)), cos (env (q 0)), 0), (0, 0, 1))"
  "evm env (orient L) = ((1, 0, 0), (0, cos (env (q 1)), - sin (env (q 1))), (0, sin (env (q 1)), cos (env (q 1))))"
  "evm env (orient R) = ((cos (env (q 2)), 0, sin (env (q 2))), (0, 1, 0), (- sin (env (q 2)), 0, cos (env (q 2))))"
  by simp_all

definition OM :: "(sym \<Rightarrow> real) \<Rightarrow> frame \<Rightarrow> rmat" where
  "OM env F = evm env (orient F)"

lemma rot_OM: "rot (OM env F)"
  unfolding OM_def
  by (cases F) (simp_all only: evm_orient rot_rid rot_x rot_y rot_z cos_sin_one)

text \<open>\<open>MF env F\<close> takes components in the frame \<open>F\<close> to components in the inertial frame.\<close>

definition MF :: "(sym \<Rightarrow> real) \<Rightarrow> frame \<Rightarrow> rmat" where
  "MF env F = evm env (chain N F)"

lemma MF_simps:
  "MF env N = rid"
  "MF env Y = OM env Y"
  "MF env L = rmm (OM env Y) (OM env L)"
  "MF env R = rmm (OM env Y) (rmm (OM env L) (OM env R))"
  by (simp_all add: MF_def OM_def [symmetric] del: orient.simps)

lemma rot_MF: "rot (MF env F)"
  by (cases F) (simp_all only: MF_simps rot_rid rot_rmm rot_OM)

lemma OM_cancel:
  "rmm (rtr (OM env F)) (OM env F) = rid"
  "rmm (rtr (OM env F)) (rmm (OM env F) A) = A"
  using rot_OM [of env F] rmm_assoc [of "rtr (OM env F)" "OM env F" A]
  by (simp_all add: rot_def)

lemma evm_dcm: "evm env (dcm F G) = rmm (rtr (MF env F)) (MF env G)"
  by (cases F; cases G)
    (simp_all add: dcm_def MF_simps rtr_rmm rmm_assoc OM_cancel OM_def [symmetric] del: orient.simps)


text \<open>
  The value of a vector: the sum of its parts, each taken to the inertial frame.
\<close>

definition part :: "(sym \<Rightarrow> real) \<Rightarrow> frame \<times> vec3 \<Rightarrow> rvec" where
  "part env p = rmv (MF env (fst p)) (ev3 env (snd p))"

fun sem :: "(sym \<Rightarrow> real) \<Rightarrow> vector \<Rightarrow> rvec" where
  "sem env [] = rzero"
| "sem env (p # ps) = radd (part env p) (sem env ps)"

lemma radd_left_commute: "radd a (radd b c) = radd b (radd a c)"
  by (cases a rule: rvec_cases, cases b rule: rvec_cases, cases c rule: rvec_cases) simp

lemmas radd_ac = radd_assoc radd_commute radd_left_commute

lemma sem_append [simp]: "sem env (u @ v) = radd (sem env u) (sem env v)"
  by (induction u) (simp_all add: radd_assoc)

lemma sem_insert_part: "sem env (insert_part p ps) = radd (part env p) (sem env ps)"
proof (induction ps)
  case Nil
  show ?case by simp
next
  case (Cons p' ps)
  show ?case
  proof (cases "fst p = fst p'")
    case True
    then have "part env (fst p', add3 (snd p') (snd p)) = radd (part env p') (part env p)"
      by (simp add: part_def rmv_radd)
    then show ?thesis
      using True by (simp add: radd_ac)
  next
    case False
    then show ?thesis
      using Cons by (simp add: radd_ac)
  qed
qed

lemma sem_foldl_insert:
  "sem env (foldl (\<lambda>args p. insert_part p args) acc xs) = radd (sem env acc) (sem env xs)"
proof (induction xs arbitrary: acc)
  case Nil
  show ?case by simp
next
  case (Cons x xs)
  show ?case
    by (simp add: Cons sem_insert_part radd_ac)
qed

lemma sem_filter_zero3: "sem env (filter (\<lambda>p. snd p \<noteq> zero3) v) = sem env v"
  by (induction v) (simp_all add: part_def)

lemma sem_Vector [simp]: "sem env (Vector ps) = sem env ps"
  by (simp add: Vector_def sem_filter_zero3 sem_foldl_insert)

lemma sem_vadd [simp]: "sem env (vadd u v) = radd (sem env u) (sem env v)"
  by (simp add: vadd_def)

lemma sem_scaled:
  "sem env (map (\<lambda>p. (fst p, scale3 k (snd p))) v) = rscale (eval env k) (sem env v)"
  by (induction v) (simp_all add: part_def rmv_rscale rscale_radd)

lemma sem_smul [simp]: "sem env (smul k v) = rscale (eval env k) (sem env v)"
  by (simp add: smul_def sem_scaled)

lemma sem_vneg [simp]: "sem env (vneg v) = rscale (- 1) (sem env v)"
  by (simp add: vneg_def)

lemma sem_vsub [simp]: "sem env (vsub u v) = radd (sem env u) (rscale (- 1) (sem env v))"
  by (simp add: vsub_def)

lemma sem_frame:
  "sem env (frame_x F) = rmv (MF env F) (1, 0, 0)"
  "sem env (frame_y F) = rmv (MF env F) (0, 1, 0)"
  "sem env (frame_z F) = rmv (MF env F) (0, 0, 1)"
  by (simp_all add: frame_x_eq frame_y_eq frame_z_eq part_def)

text \<open>The dot product of the script is the dot product of the values.\<close>

lemma eval_foldl_add:
  "eval env (foldl (\<lambda>out p. add_e out (g p)) out xs)
     = eval env out + sum_list (map (\<lambda>p. eval env (g p)) xs)"
  by (induction xs arbitrary: out) simp_all

lemma dot_term:
  "eval env (dot3 (snd p2) (mat_vec (dcm (fst p2) (fst p1)) (snd p1)))
     = rdot (part env p2) (part env p1)"
  by (simp add: part_def evm_dcm rmv_rmm rdot_rmv_rtr)

lemma dot_sum:
  "sum_list (map (\<lambda>p2. eval env (dot3 (snd p2) (mat_vec (dcm (fst p2) (fst p1)) (snd p1)))) v)
     = rdot (sem env v) (part env p1)"
  by (induction v) (simp_all add: part_def evm_dcm rmv_rmm rdot_rmv_rtr rdot_radd_left)

lemma eval_dot_foldl:
  "eval env (foldl (\<lambda>out p1.
       foldl (\<lambda>out p2. add_e out (dot3 (snd p2) (mat_vec (dcm (fst p2) (fst p1)) (snd p1)))) out v)
       out u) = eval env out + rdot (sem env v) (sem env u)"
proof (induction u arbitrary: out)
  case Nil
  show ?case by simp
next
  case (Cons p1 u)
  show ?case
    unfolding foldl_Cons Cons eval_foldl_add dot_sum by (simp add: rdot_radd_right)
qed

lemma eval_dot [simp]: "eval env (dot u v) = rdot (sem env u) (sem env v)"
  by (simp add: dot_def eval_dot_foldl rdot_commute)

text \<open>The cross product of the script is the cross product of the values.\<close>

lemma sem_foldl_vadd:
  "sem env (foldl (\<lambda>out p. vadd out (G p)) out xs)
     = radd (sem env out) (foldr (\<lambda>p acc. radd (sem env (G p)) acc) xs rzero)"
  by (induction xs arbitrary: out) (simp_all add: radd_assoc)

lemma rmv_rtr_components:
  "(rdot a (rmv M (1, 0, 0)), rdot a (rmv M (0, 1, 0)), rdot a (rmv M (0, 0, 1))) = rmv (rtr M) a"
  by (cases M rule: rmat_cases, cases a rule: rvec_cases) (simp add: algebra_simps)

lemma part_cross_part: "part env (cross_part u p) = rcross (sem env u) (part env p)"
proof -
  obtain F c1 c2 c3 where p: "p = (F, (c1, c2, c3))" by (cases p) auto
  obtain m1 m2 m3 where m: "rmv (rtr (MF env F)) (sem env u) = (m1, m2, m3)"
    by (cases "rmv (rtr (MF env F)) (sem env u)") auto
  have d: "rdot (sem env u) (rmv (MF env F) (1, 0, 0)) = m1"
    "rdot (sem env u) (rmv (MF env F) (0, 1, 0)) = m2"
    "rdot (sem env u) (rmv (MF env F) (0, 0, 1)) = m3"
    using rmv_rtr_components [of "sem env u" "MF env F"] m by simp_all
  have "ev3 env (snd (cross_part u p)) = rcross (m1, m2, m3) (ev3 env (c1, c2, c3))"
    by (simp add: cross_part_def p Let_def d sem_frame)
  then have "part env (cross_part u p)
      = rmv (MF env F) (rcross (rmv (rtr (MF env F)) (sem env u)) (ev3 env (c1, c2, c3)))"
    by (simp add: part_def m cross_part_def p Let_def)
  also have "\<dots> = rcross (sem env u) (rmv (MF env F) (ev3 env (c1, c2, c3)))"
    by (simp add: rot_cross [OF rot_MF] rot_rtr_rmv [OF rot_MF])
  finally show ?thesis by (simp add: part_def p)
qed

lemma sem_cross [simp]: "sem env (cross u v) = rcross (sem env u) (sem env v)"
proof -
  have "foldr (\<lambda>p acc. radd (sem env [cross_part u p]) acc) v rzero = rcross (sem env u) (sem env v)"
    by (induction v) (simp_all add: part_cross_part rcross_radd_right)
  then show ?thesis
    by (simp add: cross_def sem_foldl_vadd)
qed


lemma sem_frame_z_Y [simp]: "sem env (frame_z Y) = (0, 0, 1)"
  by (simp add: sem_frame MF_simps OM_def)

lemma sem_frame_z_N [simp]: "sem env (frame_z N) = (0, 0, 1)"
  by (simp add: sem_frame MF_simps)

lemma eval_syms [simp]:
  "eval env sym_g = env (Symbol ''g'')" "eval env sym_m = env (Symbol ''m'')"
  "eval env sym_a = env (Symbol ''a'')" "eval env sym_b = env (Symbol ''b'')"
  "eval env sym_c = env (Symbol ''c'')" "eval env sym_d = env (Symbol ''d'')"
  "eval env sym_e = env (Symbol ''e'')" "eval env sym_f = env (Symbol ''f'')"
  by (simp_all add: sym_g_def sym_m_def sym_a_def sym_b_def sym_c_def sym_d_def sym_e_def sym_f_def)

lemma eval_mu:
  "eval env (mu ! 0) = rdot (sem env (frame_x R)) (0, 0, 1)"
  "eval env (mu ! 1) = rdot (sem env (frame_y R)) (0, 0, 1)"
  "eval env (mu ! 2) = rdot (sem env (frame_z R)) (0, 0, 1)"
  unfolding mu_nth eval_dot sem_frame_z_Y by (rule refl)+

lemma eval_eps:
  "eval env eps = sqrt ((env (Symbol ''a'') * eval env (mu ! 0))\<^sup>2
     + (env (Symbol ''b'') * eval env (mu ! 1))\<^sup>2 + (env (Symbol ''c'') * eval env (mu ! 2))\<^sup>2)"
  by (simp add: eps_def)

lemma sem_O_pos_from_P:
  "sem env O_pos_from_P =
     radd (radd (rscale (- ((env (Symbol ''a''))\<^sup>2 * eval env (mu ! 0) / eval env eps)) (sem env (frame_x R)))
                (rscale (- ((env (Symbol ''b''))\<^sup>2 * eval env (mu ! 1) / eval env eps)) (sem env (frame_y R))))
          (rscale (- ((env (Symbol ''c''))\<^sup>2 * eval env (mu ! 2) / eval env eps)) (sem env (frame_z R)))"
  by (simp add: O_pos_from_P_def power2_eq_square)

definition env_c2 :: "sym \<Rightarrow> real" where
  "env_c2 = (\<lambda>x. 0)(Symbol ''c'' := 2)"

lemma env_c2_q [simp]: "env_c2 (q i) = 0"
  by (simp add: env_c2_def q_def)

lemma MF_env_c2 [simp]: "MF env_c2 F = rid"
  by (cases F) (simp_all add: MF_simps OM_def rmm_def rid_def)

lemma eval_mu_env_c2: "eval env_c2 (mu ! 0) = 0" "eval env_c2 (mu ! 1) = 0" "eval env_c2 (mu ! 2) = 1"
  unfolding eval_mu by (simp_all add: sem_frame)

lemma eval_eps_env_c2: "eval env_c2 eps = 2"
proof -
  have "eval env_c2 eps = sqrt (2\<^sup>2)"
    unfolding eval_eps eval_mu_env_c2 by (simp add: env_c2_def)
  then show ?thesis by simp
qed


text \<open>Substitution and evaluation.\<close>

definition env_subs :: "(sym \<Rightarrow> real) \<Rightarrow> (sym \<rightharpoonup> expr) \<Rightarrow> sym \<Rightarrow> real" where
  "env_subs env \<sigma> x = (case \<sigma> x of None \<Rightarrow> env x | Some w \<Rightarrow> eval env w)"

lemma eval_subs: "eval env (subs \<sigma> u) = eval (env_subs env \<sigma>) u"
  by (induction u) (simp_all add: env_subs_def split: option.splits)

lemma eval_cong: "(\<And>y. y \<in> vars u \<Longrightarrow> env y = env' y) \<Longrightarrow> eval env u = eval env' u"
  by (induction u) simp_all

lemma ev3_cong: "(\<And>y. y \<in> fst ` occ3 c \<Longrightarrow> env y = env' y) \<Longrightarrow> ev3 env c = ev3 env' c"
proof -
  assume a: "\<And>y. y \<in> fst ` occ3 c \<Longrightarrow> env y = env' y"
  obtain c1 c2 c3 where c: "c = (c1, c2, c3)" by (cases c) auto
  have e: "eval env w = eval env' w" if "vars w \<subseteq> fst ` occ3 c" for w
    using that a by (intro eval_cong) auto
  have "eval env c1 = eval env' c1" "eval env c2 = eval env' c2" "eval env c3 = eval env' c3"
    by (rule e, auto simp: c vars_occ)+
  then show ?thesis
    by (simp add: c)
qed

lemma OM_cong:
  "env (q 0) = env' (q 0) \<Longrightarrow> env (q 1) = env' (q 1) \<Longrightarrow> env (q 2) = env' (q 2)
     \<Longrightarrow> OM env F = OM env' F"
  by (cases F) (simp_all add: OM_def)

lemma MF_cong:
  "env (q 0) = env' (q 0) \<Longrightarrow> env (q 1) = env' (q 1) \<Longrightarrow> env (q 2) = env' (q 2)
     \<Longrightarrow> MF env F = MF env' F"
  using OM_cong [of env env'] by (cases F) (simp_all add: MF_simps)

lemma sem_cong:
  assumes "env (q 0) = env' (q 0)" "env (q 1) = env' (q 1)" "env (q 2) = env' (q 2)"
    "\<And>y. y \<in> fst ` vocc v \<Longrightarrow> env y = env' y"
  shows "sem env v = sem env' v"
  using assms(4)
proof (induction v)
  case Nil
  show ?case by simp
next
  case (Cons p ps)
  have "ev3 env (snd p) = ev3 env' (snd p)"
    using Cons.prems by (intro ev3_cong) (auto simp: image_Un)
  moreover have "sem env ps = sem env' ps"
    using Cons.prems by (intro Cons.IH) (auto simp: image_Un)
  ultimately show ?case
    by (simp add: part_def MF_cong [OF assms(1-3)])
qed

lemma sem_vsubs:
  assumes "\<sigma> (q 0) = None" "\<sigma> (q 1) = None" "\<sigma> (q 2) = None"
  shows "sem env (vsubs \<sigma> v) = sem (env_subs env \<sigma>) v"
proof -
  have M: "MF (env_subs env \<sigma>) F = MF env F" for F
    by (rule MF_cong) (simp_all only: env_subs_def assms option.case)
  have "ev3 env (map3 (subs \<sigma>) c) = ev3 (env_subs env \<sigma>) c" for c
    by (cases c) (simp add: eval_subs)
  then have "foldr (\<lambda>p acc. radd (sem env [(fst p, map3 (subs \<sigma>) (snd p))]) acc) v rzero
      = sem (env_subs env \<sigma>) v"
    by (induction v) (simp_all add: part_def M)
  then show ?thesis
    by (simp add: vsubs_def sem_foldl_vadd)
qed

text \<open>The symbolic derivative is the derivative of the value.\<close>

lemma eval_upd_other: "x \<notin> vars u \<Longrightarrow> eval (env(x := s)) u = eval env u"
  by (rule eval_cong) auto

lemma diff_atom_self [simp]: "diff_atom x x = Num 1"
  by (cases x) simp_all

lemma diff_sound:
  assumes "x \<noteq> t"
  shows "(x, True) \<notin> occ u \<Longrightarrow>
    ((\<lambda>s. eval (env(x := s)) u) has_field_derivative eval (env(x := s0)) (diff x u)) (at s0)"
proof (induction u)
  case (Num k)
  show ?case by simp
next
  case (Var y)
  show ?case
  proof (cases "y = x")
    case True
    then show ?thesis by simp
  next
    case False
    then have "diff_atom x y = Num 0" using assms by (cases y) auto
    then show ?thesis using False by simp
  qed
next
  case (Add u v)
  then show ?case by (auto intro!: derivative_eq_intros)
next
  case (Mul u v)
  then show ?case by (auto intro!: derivative_eq_intros)
next
  case (Pow u n)
  then show ?case by (auto intro!: derivative_eq_intros)
next
  case (Inv u)
  then have x: "x \<notin> vars u" by auto
  then have d: "diff x u = Num 0" using assms by (intro diff_zero)
  have "(\<lambda>s. eval (env(x := s)) (Inv u)) = (\<lambda>s. eval env (Inv u))"
    using x by (intro ext eval_upd_other) simp
  then show ?case by (simp only: diff.simps d mul_e_zero eval.simps of_int_0 DERIV_const)
next
  case (Sqrt u)
  then have x: "x \<notin> vars u" by auto
  then have d: "diff x u = Num 0" using assms by (intro diff_zero)
  have "(\<lambda>s. eval (env(x := s)) (Sqrt u)) = (\<lambda>s. eval env (Sqrt u))"
    using x by (intro ext eval_upd_other) simp
  then show ?case by (simp only: diff.simps d mul_e_zero eval.simps of_int_0 DERIV_const)
next
  case (Sin u)
  then have x: "x \<notin> vars u" by auto
  then have d: "diff x u = Num 0" using assms by (intro diff_zero)
  have "(\<lambda>s. eval (env(x := s)) (Sin u)) = (\<lambda>s. eval env (Sin u))"
    using x by (intro ext eval_upd_other) simp
  then show ?case by (simp only: diff.simps d mul_e_zero eval.simps of_int_0 DERIV_const)
next
  case (Cos u)
  then have x: "x \<notin> vars u" by auto
  then have d: "diff x u = Num 0" using assms by (intro diff_zero)
  have "(\<lambda>s. eval (env(x := s)) (Cos u)) = (\<lambda>s. eval env (Cos u))"
    using x by (intro ext eval_upd_other) simp
  then show ?case by (simp only: diff.simps d mul_e_zero eval.simps of_int_0 DERIV_const)
qed

text \<open>Derivatives of vector-valued functions, component by component.\<close>

definition vderiv :: "(real \<Rightarrow> rvec) \<Rightarrow> real \<Rightarrow> rvec \<Rightarrow> bool" where
  "vderiv g s D \<longleftrightarrow>
     ((\<lambda>s. fst (g s)) has_field_derivative fst D) (at s)
     \<and> ((\<lambda>s. fst (snd (g s))) has_field_derivative fst (snd D)) (at s)
     \<and> ((\<lambda>s. snd (snd (g s))) has_field_derivative snd (snd D)) (at s)"

lemma vderiv_unique: "vderiv g s D \<Longrightarrow> vderiv g s D' \<Longrightarrow> D = D'"
  unfolding vderiv_def by (metis DERIV_unique prod.collapse)

lemma vderiv_const [simp]: "vderiv (\<lambda>s. a) s rzero"
  by (simp add: vderiv_def rzero_def)

lemma vderiv_radd:
  "vderiv g1 s D1 \<Longrightarrow> vderiv g2 s D2 \<Longrightarrow> vderiv (\<lambda>s. radd (g1 s) (g2 s)) s (radd D1 D2)"
proof -
  assume a: "vderiv g1 s D1" "vderiv g2 s D2"
  obtain d1 d2 d3 where D1: "D1 = (d1, d2, d3)" by (cases D1) auto
  obtain e1 e2 e3 where D2: "D2 = (e1, e2, e3)" by (cases D2) auto
  have r: "radd a b = (fst a + fst b, fst (snd a) + fst (snd b), snd (snd a) + snd (snd b))" for a b
    by (cases a rule: rvec_cases, cases b rule: rvec_cases) simp
  show ?thesis
    using a unfolding vderiv_def D1 D2 r
    by (auto intro!: derivative_eq_intros)
qed

lemma vderiv_rmv:
  "vderiv g s D \<Longrightarrow> vderiv (\<lambda>s. rmv M (g s)) s (rmv M D)"
proof -
  assume a: "vderiv g s D"
  obtain d1 d2 d3 where D: "D = (d1, d2, d3)" by (cases D) auto
  obtain a11 a12 a13 a21 a22 a23 a31 a32 a33
    where M: "M = ((a11, a12, a13), (a21, a22, a23), (a31, a32, a33))"
    by (cases M rule: rmat_cases)
  have r: "rmv M b = (a11 * fst b + a12 * fst (snd b) + a13 * snd (snd b),
                      a21 * fst b + a22 * fst (snd b) + a23 * snd (snd b),
                      a31 * fst b + a32 * fst (snd b) + a33 * snd (snd b))" for b
    by (cases b rule: rvec_cases) (simp add: M)
  show ?thesis
    using a unfolding vderiv_def D r
    by (auto intro!: derivative_eq_intros)
qed


lemma qd_distinct_Suc [simp]:
  "qd (Suc 0) \<noteq> qd 0" "qd 0 \<noteq> qd (Suc 0)" "qd (Suc 0) \<noteq> qd 2" "qd 2 \<noteq> qd (Suc 0)"
  "q (Suc 0) \<noteq> q 0" "q 0 \<noteq> q (Suc 0)" "q (Suc 0) \<noteq> q 2" "q 2 \<noteq> q (Suc 0)"
  by (simp_all add: qd_def q_def)

lemma vderiv_ev3:
  assumes "x \<noteq> t" "(x, True) \<notin> occ3 c"
  shows "vderiv (\<lambda>s. ev3 (env(x := s)) c) s0 (ev3 (env(x := s0)) (map3 (diff x) c))"
proof -
  obtain c1 c2 c3 where c: "c = (c1, c2, c3)" by (cases c) auto
  show ?thesis
    using assms(2) diff_sound [OF assms(1), of c1 env s0] diff_sound [OF assms(1), of c2 env s0]
      diff_sound [OF assms(1), of c3 env s0]
    by (simp add: c vderiv_def)
qed

lemma MF_upd: "x \<notin> {q 0, q 1, q 2} \<Longrightarrow> MF (env(x := s)) F = MF env F"
  by (rule MF_cong) auto

lemma vderiv_sem_vdiff:
  assumes "x \<noteq> t" "x \<notin> {q 0, q 1, q 2}" "(x, True) \<notin> vocc v"
  shows "vderiv (\<lambda>s. sem (env(x := s)) v) s0 (sem (env(x := s0)) (vdiff x F v))"
proof -
  have "vderiv (\<lambda>s. sem (env(x := s)) v) s0
      (foldr (\<lambda>p acc. radd (sem (env(x := s0)) [vdiff_part x F p]) acc) v rzero)"
    using assms(3)
  proof (induction v)
    case Nil
    show ?case by simp
  next
    case (Cons p ps)
    have "vderiv (\<lambda>s. ev3 (env(x := s)) (snd p)) s0 (ev3 (env(x := s0)) (map3 (diff x) (snd p)))"
      using Cons.prems by (intro vderiv_ev3 assms(1)) simp
    then have "vderiv (\<lambda>s. rmv (MF env (fst p)) (ev3 (env(x := s)) (snd p))) s0
        (rmv (MF env (fst p)) (ev3 (env(x := s0)) (map3 (diff x) (snd p))))"
      by (rule vderiv_rmv)
    then have 1: "vderiv (\<lambda>s. part (env(x := s)) p) s0 (part (env(x := s0)) (vdiff_part x F p))"
      by (simp add: part_def MF_upd [OF assms(2)] vdiff_part_eq [OF assms(1,2)])
    have 2: "vderiv (\<lambda>s. sem (env(x := s)) ps) s0
        (foldr (\<lambda>p acc. radd (sem (env(x := s0)) [vdiff_part x F p]) acc) ps rzero)"
      using Cons.prems by (intro Cons.IH) simp
    show ?case
      using vderiv_radd [OF 1 2] by (simp only: sem.simps foldr.simps o_apply radd_rzero)
  qed
  then show ?thesis
    by (simp only: vdiff_def sem_foldl_vadd sem.simps radd_rzero)
qed

lemma vderiv_affine: "vderiv (\<lambda>s. radd (rscale s a) w) s0 a"
proof -
  obtain a1 a2 a3 where a: "a = (a1, a2, a3)" by (cases a) auto
  obtain w1 w2 w3 where w: "w = (w1, w2, w3)" by (cases w) auto
  show ?thesis
    unfolding vderiv_def a w by (auto intro!: derivative_eq_intros)
qed

lemma vderiv_cross_affine: "vderiv (\<lambda>s. rcross (radd (rscale s a) w) b) s0 (rcross a b)"
proof -
  have "(\<lambda>s. rcross (radd (rscale s a) w) b) = (\<lambda>s. radd (rscale s (rcross a b)) (rcross w b))"
    by (simp add: rcross_radd_left)
  then show ?thesis
    by (simp add: vderiv_affine)
qed

text \<open>The three directions of the angular velocity, as vectors of the inertial frame.\<close>

definition axis_vec :: "(sym \<Rightarrow> real) \<Rightarrow> nat \<Rightarrow> rvec" where
  "axis_vec env i =
     (if i = 0 then (0, 0, 1) else if i = 1 then sem env (frame_x Y) else sem env (frame_y L))"

lemma sem_R_ang_vel0:
  "sem env R_ang_vel0 =
     radd (radd (rscale (env (qd 0)) (axis_vec env 0)) (rscale (env (qd 1)) (axis_vec env 1)))
          (rscale (env (qd 2)) (axis_vec env 2))"
  by (simp add: R_ang_vel0_def axis_vec_def)

lemma axis_vec_upd: "x \<notin> {q 0, q 1, q 2} \<Longrightarrow> axis_vec (env(x := s)) i = axis_vec env i"
  by (simp add: axis_vec_def sem_frame MF_upd)

lemma sem_R_ang_vel0_upd:
  assumes "i < 3"
  shows "\<exists>w. \<forall>s. sem (env(qd i := s)) R_ang_vel0 = radd (rscale s (axis_vec env i)) w"
proof -
  consider "i = 0" | "i = 1" | "i = 2" using assms by linarith
  then show ?thesis
  proof cases
    case 1
    show ?thesis
      by (rule exI [of _ "radd (rscale (env (qd 1)) (axis_vec env 1)) (rscale (env (qd 2)) (axis_vec env 2))"])
        (simp add: 1 sem_R_ang_vel0 axis_vec_upd radd_ac)
  next
    case 2
    show ?thesis
      by (rule exI [of _ "radd (rscale (env (qd 0)) (axis_vec env 0)) (rscale (env (qd 2)) (axis_vec env 2))"])
        (simp add: 2 sem_R_ang_vel0 axis_vec_upd radd_ac)
  next
    case 3
    show ?thesis
      by (rule exI [of _ "radd (rscale (env (qd 0)) (axis_vec env 0)) (rscale (env (qd 1)) (axis_vec env 1))"])
        (simp add: 3 sem_R_ang_vel0 axis_vec_upd radd_ac)
  qed
qed


definition rpos :: "(sym \<Rightarrow> real) \<Rightarrow> rvec" where
  "rpos env = radd (sem env O_pos_from_P) (sem env RO_pos_from_O)"

lemma fst_shape: "fst ` shape = params \<union> {q 1, q 2}"
  by (auto simp: shape_def)

lemma qd_not_shape: "qd i \<notin> fst ` shape" "qdd i \<notin> fst ` shape"
  by (auto simp: fst_shape params_def)

lemma sem_shape_cong:
  assumes "vok shape FS v" "env (q 0) = env' (q 0)" "\<And>y. y \<in> fst ` shape \<Longrightarrow> env y = env' y"
  shows "sem env v = sem env' v"
proof (rule sem_cong)
  show "env (q 0) = env' (q 0)" by (rule assms(2))
  show "env (q 1) = env' (q 1)" "env (q 2) = env' (q 2)"
    by (rule assms(3), simp add: fst_shape)+
next
  fix y
  assume "y \<in> fst ` vocc v"
  then have "y \<in> fst ` shape" using assms(1) by (auto simp: vok_def)
  then show "env y = env' y" by (rule assms(3))
qed

lemma rpos_cong:
  assumes "env (q 0) = env' (q 0)" "\<And>y. y \<in> fst ` shape \<Longrightarrow> env y = env' y"
  shows "rpos env = rpos env'"
proof -
  have "sem env O_pos_from_P = sem env' O_pos_from_P"
    by (rule sem_shape_cong [OF vok_O_pos_from_P]) (use assms in auto)
  moreover have "sem env RO_pos_from_O = sem env' RO_pos_from_O"
    by (rule sem_shape_cong [OF vok_RO_pos_from_O]) (use assms in auto)
  ultimately show ?thesis by (simp add: rpos_def)
qed

lemma rpos_upd_qd [simp]: "rpos (env(qd i := s)) = rpos env"
proof (rule rpos_cong)
  show "(env(qd i := s)) (q 0) = env (q 0)" by simp
next
  fix y
  assume "y \<in> fst ` shape"
  then have "y \<noteq> qd i" using qd_not_shape(1) [of i] by blast
  then show "(env(qd i := s)) y = env y" by simp
qed

lemma sem_RO_vel0: "sem env RO_vel0 = rcross (sem env R_ang_vel0) (rpos env)"
  by (simp add: RO_vel0_def O_vel0_def rpos_def rcross_radd_right)

lemma sem_partial_w:
  assumes "i < 3"
  shows "sem env (partial_w ! i) = axis_vec env i"
proof -
  obtain w where w: "\<And>s. sem (env(qd i := s)) R_ang_vel0 = radd (rscale s (axis_vec env i)) w"
    using sem_R_ang_vel0_upd [OF assms, of env] by blast
  have "(qd i, True) \<notin> vocc R_ang_vel0"
    using vok_R_ang_vel0 qd_True_kin0 [of i] by (auto simp: vok_def)
  then have "vderiv (\<lambda>s. sem (env(qd i := s)) R_ang_vel0) (env (qd i))
      (sem (env(qd i := env (qd i))) (vdiff (qd i) N R_ang_vel0))"
    by (intro vderiv_sem_vdiff) simp_all
  then have "vderiv (\<lambda>s. radd (rscale s (axis_vec env i)) w) (env (qd i))
      (sem env (partial_w ! i))"
    using assms by (simp add: w partial_w_def)
  then show ?thesis
    using vderiv_affine by (rule vderiv_unique)
qed

lemma sem_partial_v_RO:
  assumes "i < 3"
  shows "sem env (partial_v_RO ! i) = rcross (axis_vec env i) (rpos env)"
proof -
  obtain w where w: "\<And>s. sem (env(qd i := s)) R_ang_vel0 = radd (rscale s (axis_vec env i)) w"
    using sem_R_ang_vel0_upd [OF assms, of env] by blast
  have "(qd i, True) \<notin> vocc RO_vel0"
    using vok_RO_vel0 qd_True_kin0 [of i] by (auto simp: vok_def)
  then have "vderiv (\<lambda>s. sem (env(qd i := s)) RO_vel0) (env (qd i))
      (sem (env(qd i := env (qd i))) (vdiff (qd i) N RO_vel0))"
    by (intro vderiv_sem_vdiff) simp_all
  then have "vderiv (\<lambda>s. rcross (radd (rscale s (axis_vec env i)) w) (rpos env)) (env (qd i))
      (sem env (partial_v_RO ! i))"
    using assms by (simp add: w partial_v_RO_def sem_RO_vel0)
  then show ?thesis
    using vderiv_cross_affine by (rule vderiv_unique)
qed

text \<open>The velocities under the conditions of steady motion.\<close>

lemma steady_q [simp]: "steady_dict (q i) = None"
  by (simp add: steady_dict_def)

lemma env_subs_steady [simp]:
  "env_subs env steady_dict (qd 0) = env (qd 0)"
  "env_subs env steady_dict (qd 1) = 0"
  "env_subs env steady_dict (qd (Suc 0)) = 0"
  "env_subs env steady_dict (qd 2) = 0"
  "env_subs env steady_dict (q i) = env (q i)"
  by (simp_all add: env_subs_def steady_dict_def)

lemma env_subs_steady_shape: "y \<in> fst ` shape \<Longrightarrow> env_subs env steady_dict y = env y"
  by (auto simp: fst_shape params_def env_subs_def steady_dict_def)

lemma sem_R_ang_vel: "sem env R_ang_vel = rscale (env (qd 0)) (0, 0, 1)"
  by (simp add: R_ang_vel_def sem_vsubs sem_R_ang_vel0 axis_vec_def)

lemma sem_RO_vel: "sem env RO_vel = rcross (rscale (env (qd 0)) (0, 0, 1)) (rpos env)"
proof -
  have "rpos (env_subs env steady_dict) = rpos env"
    by (rule rpos_cong) (simp_all add: env_subs_steady_shape)
  moreover have "sem (env_subs env steady_dict) R_ang_vel0 = rscale (env (qd 0)) (0, 0, 1)"
    by (simp add: sem_R_ang_vel0 axis_vec_def)
  ultimately show ?thesis
    by (simp add: RO_vel_def sem_vsubs sem_RO_vel0)
qed

text \<open>The inertia dyadic applied to a vector.\<close>

definition dsem :: "(sym \<Rightarrow> real) \<Rightarrow> dyadic \<Rightarrow> rvec \<Rightarrow> rvec" where
  "dsem env D b =
     foldr (\<lambda>d acc. radd (rscale (eval env (fst d) * rdot (sem env (snd (snd d))) b)
                                  (sem env (fst (snd d)))) acc) D rzero"

lemma sem_dyadic_dot: "sem env (dyadic_dot D v) = dsem env D (sem env v)"
proof -
  have "dyadic_dot D v
      = foldl (\<lambda>ol d. vadd ol (smul (mul_e (fst d) (dot (snd (snd d)) v)) (fst (snd d)))) [] D"
    by (simp add: dyadic_dot_def case_prod_beta)
  then show ?thesis
    by (simp add: sem_foldl_vadd dsem_def)
qed

lemma dsem_rscale: "dsem env D (rscale s b) = rscale s (dsem env D b)"
  unfolding dsem_def by (induction D) (simp_all add: rscale_radd mult_ac)


text \<open>The value of the dynamical residuals.\<close>

definition zhat :: rvec where
  "zhat = (0, 0, 1)"

lemma axis_vec_0 [simp]: "axis_vec env 0 = zhat"
  by (simp add: axis_vec_def zhat_def)

lemma sem_R_ang_vel_zhat: "sem env R_ang_vel = rscale (env (qd 0)) zhat"
  by (simp add: sem_R_ang_vel zhat_def)

lemma sem_RO_vel_zhat: "sem env RO_vel = rscale (env (qd 0)) (rcross zhat (rpos env))"
proof -
  have "(0, 0, env (qd 0)) = rscale (env (qd 0)) zhat"
    by (simp add: zhat_def)
  then show ?thesis
    by (simp only: sem_RO_vel rscale.simps mult_zero_right mult_1_right rcross_rscale)
qed

lemma sem_F_RO: "sem env F_RO = rscale (env (Symbol ''m'') * env (Symbol ''g'')) zhat"
  by (simp add: F_RO_def zhat_def)

definition Gf :: "(sym \<Rightarrow> real) \<Rightarrow> nat \<Rightarrow> real" where
  "Gf env i = env (Symbol ''m'') * env (Symbol ''g'')
     * rdot zhat (rcross (axis_vec env i) (rpos env))"

definition Cf :: "(sym \<Rightarrow> real) \<Rightarrow> nat \<Rightarrow> real" where
  "Cf env i =
     - env (Symbol ''m'')
       * rdot (rcross zhat (rcross zhat (rpos env))) (rcross (axis_vec env i) (rpos env))
     - rdot (rcross zhat (dsem env I_dyadic zhat)) (axis_vec env i)"

lemma sem_R_star:
  "sem env R_star = rscale (- env (Symbol ''m'') * (env (qd 0))\<^sup>2)
     (rcross zhat (rcross zhat (rpos env)))"
  by (simp add: R_star_def RO_acc_def sem_R_ang_vel_zhat sem_RO_vel_zhat power2_eq_square)

lemma sem_T_star:
  "sem env T_star = rscale (- ((env (qd 0))\<^sup>2)) (rcross zhat (dsem env I_dyadic zhat))"
  by (simp add: T_star_def sem_dyadic_dot sem_R_ang_vel_zhat dsem_rscale power2_eq_square)

lemma eval_f_dyn_at:
  assumes "i < 3"
  shows "eval env (f_dyn_at i) = Gf env i + (env (qd 0))\<^sup>2 * Cf env i"
  by (simp add: f_dyn_at_def f_r_at_def f_r_star_at_def expand_def collect_def gaf_RO_nth [OF assms]
      sem_F_RO sem_R_star sem_T_star sem_partial_w [OF assms] sem_partial_v_RO [OF assms]
      Gf_def Cf_def algebra_simps)

lemma Gf_0: "Gf env 0 = 0"
  by (simp add: Gf_def)

lemma Cf_0: "Cf env 0 = 0"
  by (simp add: Cf_def)

lemma eval_f_dyn_at_0: "eval env (f_dyn_at 0) = 0"
  by (simp add: eval_f_dyn_at Gf_0 Cf_0)


text \<open>An upright body with every constant equal to one and at rest.\<close>

definition env_unit :: "sym \<Rightarrow> real" where
  "env_unit x = (case x of Symbol n \<Rightarrow> 1 | Dyn n k \<Rightarrow> 0)"

lemma env_unit_simps [simp]:
  "env_unit (Symbol n) = 1" "env_unit (q i) = 0" "env_unit (qd i) = 0"
  by (simp_all add: env_unit_def q_def qd_def)

lemma MF_env_unit [simp]: "MF env_unit F = rid"
  by (cases F) (simp_all add: MF_simps OM_def rmm_def rid_def)

lemma eval_mu_env_unit:
  "eval env_unit (mu ! 0) = 0" "eval env_unit (mu ! 1) = 0" "eval env_unit (mu ! 2) = 1"
  unfolding eval_mu by (simp_all add: sem_frame)

lemma eval_eps_env_unit: "eval env_unit eps = 1"
  unfolding eval_eps eval_mu_env_unit by simp

lemma rpos_env_unit: "rpos env_unit = (1, 1, 0)"
  unfolding rpos_def sem_O_pos_from_P eval_mu_env_unit eval_eps_env_unit
  by (simp add: RO_pos_from_O_def sem_frame)

lemma axis_vec_env_unit:
  "axis_vec env_unit (Suc 0) = (1, 0, 0)" "axis_vec env_unit 2 = (0, 1, 0)"
  by (simp_all add: axis_vec_def sem_frame)

lemma eval_f_dyn_at_env_unit: "eval env_unit (f_dyn_at 1) = 1" "eval env_unit (f_dyn_at 2) = - 1"
  by (simp_all add: eval_f_dyn_at Gf_def rpos_env_unit axis_vec_env_unit zhat_def)


text \<open>The coefficient list of an expression, read as a polynomial in one symbol.\<close>

definition peval :: "(sym \<Rightarrow> real) \<Rightarrow> sym \<Rightarrow> expr list \<Rightarrow> real" where
  "peval env x cs = foldr (\<lambda>c acc. eval env c + env x * acc) cs 0"

lemma peval_simps [simp]:
  "peval env x [] = 0" "peval env x (c # cs) = eval env c + env x * peval env x cs"
  by (simp_all add: peval_def)

lemma peval_padd: "peval env x (padd xs ys) = peval env x xs + peval env x ys"
  by (induction xs ys rule: padd.induct) (simp_all add: algebra_simps)

lemma peval_map_mul_e: "peval env x (map (mul_e a) ys) = eval env a * peval env x ys"
  by (induction ys) (simp_all add: algebra_simps)

lemma peval_pmul: "peval env x (pmul xs ys) = peval env x xs * peval env x ys"
  by (induction xs) (simp_all add: peval_padd peval_map_mul_e algebra_simps)

lemma peval_ppow: "peval env x (ppow xs n) = peval env x xs ^ n"
  by (induction n) (simp_all add: peval_pmul)

lemma peval_coeffs: "peval env x (coeffs x u) = eval env u"
  by (induction u) (simp_all add: peval_padd peval_pmul peval_ppow)

lemma coeffs_free: "(x, True) \<notin> occ u \<Longrightarrow> x \<notin> lvars (coeffs x u)"
proof (induction u)
  case (Add u v)
  then show ?case using lvars_padd [of "coeffs x u" "coeffs x v"] by auto
next
  case (Mul u v)
  then show ?case using lvars_pmul [of "coeffs x u" "coeffs x v"] by auto
next
  case (Pow u n)
  then show ?case using lvars_ppow [of "coeffs x u" n] by auto
qed auto

text \<open>A real polynomial given by the list of its coefficients.\<close>

definition rpoly :: "real list \<Rightarrow> real \<Rightarrow> real" where
  "rpoly cs s = foldr (\<lambda>c acc. c + s * acc) cs 0"

lemma rpoly_simps [simp]: "rpoly [] s = 0" "rpoly (c # cs) s = c + s * rpoly cs s"
  by (simp_all add: rpoly_def)

lemma peval_rpoly:
  "x \<notin> lvars cs \<Longrightarrow> peval (env(x := s)) x cs = rpoly (map (eval env) cs) s"
  by (induction cs) (simp_all add: eval_upd_other)

lemma rpoly_sum: "rpoly cs s = (\<Sum>i<length cs. cs ! i * s ^ i)"
proof (induction cs)
  case Nil
  show ?case by simp
next
  case (Cons c cs)
  have "(\<Sum>i<length (c # cs). (c # cs) ! i * s ^ i) = c + (\<Sum>i<length cs. cs ! i * s ^ Suc i)"
    by (simp only: list.size(4) sum.lessThan_Suc_shift nth_Cons_0 nth_Cons_Suc power_0 mult_1_right
        Suc_eq_plus1 [symmetric] add_Suc_right add_0_right)
  also have "\<dots> = c + s * (\<Sum>i<length cs. cs ! i * s ^ i)"
    by (simp add: sum_distrib_left mult_ac)
  finally show ?case using Cons by simp
qed

definition nth0 :: "real list \<Rightarrow> nat \<Rightarrow> real" where
  "nth0 cs i = (if i < length cs then cs ! i else 0)"

lemma rpoly_sum_le: "length cs \<le> Suc n \<Longrightarrow> rpoly cs s = (\<Sum>i\<le>n. nth0 cs i * s ^ i)"
proof -
  assume n: "length cs \<le> Suc n"
  have "(\<Sum>i\<le>n. nth0 cs i * s ^ i) = (\<Sum>i\<in>{..<length cs}. nth0 cs i * s ^ i)"
    by (rule sum.mono_neutral_right) (use n in \<open>auto simp: nth0_def\<close>)
  also have "\<dots> = (\<Sum>i<length cs. cs ! i * s ^ i)"
    by (rule sum.cong) (auto simp: nth0_def)
  finally show ?thesis by (simp add: rpoly_sum)
qed

lemma quadratic_coefficient:
  assumes "\<And>s. rpoly cs s = G + C * s\<^sup>2"
  shows "nth0 cs 2 = C"
proof -
  define n where "n = max (length cs) 2"
  define d where "d i = (if i = 0 then G else if i = 2 then C else 0)" for i :: nat
  have n: "length cs \<le> Suc n" "2 \<le> n" by (simp_all add: n_def)
  have "(\<Sum>i\<le>n. d i * s ^ i) = G + C * s\<^sup>2" for s
  proof -
    have "(\<Sum>i\<le>n. d i * s ^ i)
        = (\<Sum>i\<le>n. (if i = 0 then G else 0) + (if i = 2 then C * s\<^sup>2 else 0))"
      by (rule sum.cong) (auto simp: d_def)
    also have "\<dots> = G + C * s\<^sup>2"
      using n(2) by (simp add: sum.distrib)
    finally show ?thesis .
  qed
  then have "\<forall>s. (\<Sum>i\<le>n. nth0 cs i * s ^ i) = (\<Sum>i\<le>n. d i * s ^ i)"
    using assms rpoly_sum_le [OF n(1)] by simp
  then have "\<forall>i\<le>n. nth0 cs i = d i"
    by (simp only: polyfun_eq_coeffs)
  then have "nth0 cs 2 = d 2" using n(2) by blast
  then show ?thesis by (simp add: d_def)
qed

lemma eval_coeff: "eval env (coeff u x n) = nth0 (map (eval env) (coeffs x u)) n"
  by (simp add: coeff_def nth0_def Let_def)

text \<open>
  If the value of an expression, as a function of \<open>x\<close>, is \<open>G + C * x\<^sup>2\<close> and \<open>x\<close> occurs
  in it through sums, products and powers only, then the coefficient of \<open>x\<^sup>2\<close> has the value
  \<open>C\<close>.
\<close>

lemma eval_coeff_quadratic:
  assumes "(x, True) \<notin> occ u" "\<And>s. eval (env(x := s)) u = G + C * s\<^sup>2"
  shows "eval env (coeff u x 2) = C"
proof -
  have "rpoly (map (eval env) (coeffs x u)) s = G + C * s\<^sup>2" for s
    using peval_rpoly [OF coeffs_free [OF assms(1)], of env s] peval_coeffs [of "env(x := s)" x u]
      assms(2) [of s] by simp
  then show ?thesis
    unfolding eval_coeff by (rule quadratic_coefficient)
qed


lemma Gf_upd: "Gf (env(qd 0 := s)) i = Gf env i"
  by (simp add: Gf_def axis_vec_upd)

lemma dsem_I_upd: "dsem (env(qd 0 := s)) I_dyadic b = dsem env I_dyadic b"
  by (simp add: dsem_def I_dyadic_def inertia_def sem_frame MF_upd
      Ixx_def Iyy_def Izz_def Ixy_def Iyz_def Ixz_def)

lemma Cf_upd: "Cf (env(qd 0 := s)) i = Cf env i"
  by (simp add: Cf_def axis_vec_upd dsem_I_upd)

lemma eval_f_dyn_at_upd:
  "i < 3 \<Longrightarrow> eval (env(qd 0 := s)) (f_dyn_at i) = Gf env i + Cf env i * s\<^sup>2"
  by (simp add: eval_f_dyn_at Gf_upd Cf_upd)

lemma qd0_polynomial: "i < 3 \<Longrightarrow> (qd 0, True) \<notin> occ (f_dyn_at i)"
  using occ_f_dyn_at [of i] qd_True_kin0 [of 0] by blast

lemma env_subs_qd0: "env_subs env [qd 0 \<mapsto> Num 0] = env(qd 0 := 0)"
  by (rule ext) (simp add: env_subs_def)

lemma eval_zero_spin: "i < 3 \<Longrightarrow> eval env (subs [qd 0 \<mapsto> Num 0] (f_dyn_at i)) = Gf env i"
  by (simp add: eval_subs env_subs_qd0 eval_f_dyn_at_upd)

lemma eval_spin_coefficient: "i < 3 \<Longrightarrow> eval env (coeff (f_dyn_at i) (qd 0) 2) = Cf env i"
  by (rule eval_coeff_quadratic [OF qd0_polynomial]) (simp_all add: eval_f_dyn_at_upd)

lemma h0_nth:
  "h0 ! 0 = subs [qd 0 \<mapsto> Num 0] (f_dyn_at 1)" "h0 ! 1 = coeff (f_dyn_at 1) (qd 0) 2"
  "h0 ! 2 = subs [qd 0 \<mapsto> Num 0] (f_dyn_at 2)" "h0 ! 3 = coeff (f_dyn_at 2) (qd 0) 2"
  by (simp_all add: h0_eq f_dyn_eq numeral_3_eq_3)

lemma eval_h0:
  "eval env (h0 ! 0) = Gf env 1" "eval env (h0 ! 1) = Cf env 1"
  "eval env (h0 ! 2) = Gf env 2" "eval env (h0 ! 3) = Cf env 2"
  unfolding h0_nth by (simp_all add: eval_zero_spin eval_spin_coefficient)

lemma h_nth:
  "h ! 0 = subs symbol_dict (h0 ! 0)" "h ! 1 = subs symbol_dict (h0 ! 1)"
  "h ! 2 = subs symbol_dict (h0 ! 2)" "h ! 3 = subs symbol_dict (h0 ! 3)"
  by (simp_all add: h_eq)

lemma env_subs_symbol_dict_qd0: "env_subs env symbol_dict (qd 0) = env (Symbol ''qd0'')"
  by (simp add: env_subs_def symbol_dict_def)

section \<open>The claims\<close>

text \<open>
  C2. For every \<open>i\<close> in \<open>{0, 1, 2}\<close> the derivative of the steady dynamical residual
  \<open>f_dyn[i]\<close> with respect to the yaw coordinate \<open>q[0]\<close> is the expression zero: the yaw
  coordinate does not occur in the residuals, so the assertion of line 83 holds in each of the
  three rounds of the loop.
\<close>

theorem C2_yaw_derivative_zero:
  "map (diff (q 0)) f_dyn = [Num 0, Num 0, Num 0]"
  by (simp add: f_dyn_eq diff_q0_f_dyn_at)

text \<open>
  C3. The time derivative, taken in the body frame \<open>R\<close>, of the velocity of the mass centre
  (the velocity after the conditions of steady motion, line 55), with the conditions of steady
  motion applied once more, is the zero vector: a vector with no part at all, which is what the
  assertion of line 60 compares with \<open>0\<close>.
\<close>

theorem C3_steady_velocity_derivative_zero:
  "vsubs steady_dict (vdiff t R RO_vel) = []"
  using RO_vel_dt_Nil by (simp add: RO_vel_dt_def)

text \<open>
  C5. The list \<open>h\<close> has four entries and \<open>dh\<close> has eight. When the loop of lines 99 to 102
  has run, entry \<open>2 i + j\<close> of the derivative list is the derivative of entry \<open>i\<close> of the
  list of residuals with respect to the coordinate \<open>q[j + 1]\<close>, for \<open>i < 4\<close> and \<open>j < 2\<close>; the
  two final lists are these two lists with the functions of time renamed by \<open>symbol_dict\<close>.
\<close>

theorem C5_dh_row_major:
  assumes "i < 4" "j < 2"
  shows "length h = 4 \<and> length dh = 8 \<and> length h0 = 4 \<and> length dh0 = 8
    \<and> dh0 ! (2 * i + j) = diff (q (j + 1)) (h0 ! i)
    \<and> h ! i = subs symbol_dict (h0 ! i)
    \<and> dh ! (2 * i + j) = subs symbol_dict (diff (q (j + 1)) (h0 ! i))"
proof -
  have "2 * i + j < 8" using assms by simp
  then show ?thesis
    using assms by (simp add: h_eq dh_eq dh0_nth)
qed

theorem C5_dh_row_major_witness:
  "(3::nat) < 4 \<and> (1::nat) < 2 \<and> length h = 4 \<and> length dh = 8
    \<and> dh0 ! 7 = diff (q 2) (h0 ! 3)
    \<and> h ! 3 = subs symbol_dict (h0 ! 3)
    \<and> dh ! 7 = subs symbol_dict (diff (q 2) (h0 ! 3))"
  using C5_dh_row_major [of 3 1] by (simp add: numeral_2_eq_2)

text \<open>
  C9. The coefficient of viscous friction \<open>s\<close> occurs in none of the twelve expressions that
  are written out: in none of the four entries of \<open>h\<close> and in none of the eight entries of
  \<open>dh\<close>.
\<close>

theorem C9_friction_symbol_absent:
  "map (\<lambda>u. Symbol ''s'' \<in> vars u) h = replicate 4 False
    \<and> map (\<lambda>u. Symbol ''s'' \<in> vars u) dh = replicate 8 False"
proof -
  have "map (\<lambda>u. Symbol ''s'' \<in> vars u) h = map (\<lambda>u. False) h"
    by (rule map_cong) (simp_all add: s_not_h)
  moreover have "map (\<lambda>u. Symbol ''s'' \<in> vars u) dh = map (\<lambda>u. False) dh"
    by (rule map_cong) (simp_all add: s_not_dh)
  moreover have "length h = 4" "length dh = 8"
    by (simp_all add: h_eq dh_eq)
  ultimately show ?thesis
    by (simp add: map_replicate_const)
qed




text \<open>
  C10. Each of the two nontrivial steady residuals is its zero-spin value plus its coefficient
  of the squared spin rate times the squared spin rate, for every value of the symbols:
  \<open>f_dyn[k + 1] = h[2 k] + h[2 k + 1] * qd[0]\<^sup>2\<close> for \<open>k = 0\<close> and \<open>k = 1\<close>, with \<open>h\<close> as lines
  93 to 96 leave it. The same holds for the list \<open>h\<close> that is written out, once the
  functions of time have the values of the plain symbols that \<open>symbol_dict\<close> gives them.
\<close>

theorem C10_affine_in_squared_spin:
  "eval env (f_dyn ! 1) = eval env (h0 ! 0) + eval env (h0 ! 1) * (env (qd 0))\<^sup>2
   \<and> eval env (f_dyn ! 2) = eval env (h0 ! 2) + eval env (h0 ! 3) * (env (qd 0))\<^sup>2
   \<and> eval (env_subs env symbol_dict) (f_dyn ! 1)
       = eval env (h ! 0) + eval env (h ! 1) * (env (Symbol ''qd0''))\<^sup>2
   \<and> eval (env_subs env symbol_dict) (f_dyn ! 2)
       = eval env (h ! 2) + eval env (h ! 3) * (env (Symbol ''qd0''))\<^sup>2"
  unfolding h_nth eval_subs eval_h0 f_dyn_nth
  by (simp add: eval_f_dyn_at env_subs_symbol_dict_qd0 mult.commute)

end
